theory Spec2Isabelle
  imports Main "HOL-Library.AList" "HOL-Library.Char_ord" "HOL-Library.List_Lexorder"
    "HOL-Library.Multiset"
begin

section \<open>The DNS collector: data model\<close>

text \<open>
  The collector (\<^verbatim>\<open>cinq_collector_dns/__init__.py\<close>) fetches DNS zones and records from two
  upstream sources and reconciles them into the inventory; \<^verbatim>\<open>views.py\<close> serves the inventory.
  Python exceptions are values of \<open>error\<close>; a function that can raise returns \<open>error + 'a\<close>
  with \<open>Inl\<close> for the exception. Python strings are \<open>string\<close>, ordered lexicographically
  by character code as Python's \<^verbatim>\<open>sorted\<close> orders \<^verbatim>\<open>str\<close>.
\<close>

datatype error =
    CloudFlareError string
  | KeyError string
  | AttributeError string
  | IntegrityError string
  | DatabaseError
  | TransferError string

text \<open>
  A JSON object returned by the CloudFlare API is a Python \<^verbatim>\<open>dict\<close>: an association list
  in document order. The code reads only string-valued fields (\<^verbatim>\<open>id\<close>, \<^verbatim>\<open>name\<close>,
  \<^verbatim>\<open>content\<close>, \<^verbatim>\<open>type\<close>); every field is kept by its text. Subscripting a missing key
  raises \<^verbatim>\<open>KeyError\<close>.
\<close>

type_synonym json_obj = "(string \<times> string) list"

definition row_get :: "json_obj \<Rightarrow> string \<Rightarrow> error + string" where
  "row_get row k = (case map_of row k of None \<Rightarrow> Inl (KeyError k) | Some v \<Rightarrow> Inr v)"

text \<open>
  The body of a list response: \<^verbatim>\<open>response['result_info']\<close> and \<^verbatim>\<open>response['result']\<close>,
  each \<open>None\<close> when the key is absent. \<^verbatim>\<open>result_info\<close> is itself a dict, whose
  \<^verbatim>\<open>total_pages\<close> key the code tests for.
\<close>

record api_response =
  result_info :: "(string \<times> int) list option"
  result :: "json_obj list option"

record http_response =
  status_code :: int
  response_text :: string
  json :: api_response

text \<open>Request parameters (\<^verbatim>\<open>kwargs\<close>), and the requests a session has issued so far.\<close>

type_synonym args = "(string \<times> int) list"
type_synonym request = "string \<times> args"

text \<open>
  \<^verbatim>\<open>self.cloudflare_session.get(self.cloudflare_endpoint + path, params=args)\<close>: the upstream
  server, answering a path and its parameters.
\<close>

type_synonym http = "string \<Rightarrow> args \<Rightarrow> http_response"

text \<open>
  The snapshot handed to the reconciliation engine: the zone dicts built by the two
  \<^verbatim>\<open>get_*_records\<close> functions, and the record dicts inside them.
\<close>

type_synonym rid = string

record record_data =
  rd_id :: rid
  rd_zone_id :: rid
  rd_name :: string
  rd_value :: "string list"
  rd_type :: string

record zone_data =
  zd_zone_id :: rid
  zd_name :: string
  zd_source :: string
  zd_comment :: "string option"
  zd_tags :: "(string \<times> string) list"
  zd_records :: "record_data list"

text \<open>
  \<^verbatim>\<open>get_resource_id(prefix, *data)\<close> is imported from \<^verbatim>\<open>cloud_inquisitor.utils\<close>; it is a
  parameter of every function that calls it. Its arguments after the prefix are strings or
  lists of strings.
\<close>

datatype part = S string | L "string list"

type_synonym resource_id_fn = "string \<Rightarrow> part list \<Rightarrow> rid"

section \<open>Python text rendering\<close>

text \<open>\<^verbatim>\<open>str(n)\<close> of an int.\<close>

fun str_nat :: "nat \<Rightarrow> string" where
  "str_nat n =
     (if n < 10 then [char_of (48 + n)]
      else str_nat (n div 10) @ [char_of (48 + n mod 10)])"

declare str_nat.simps [simp del]

definition str_int :: "int \<Rightarrow> string" where
  "str_int i = (if i < 0 then CHR ''-'' # str_nat (nat (- i)) else str_nat (nat i))"

text \<open>
  \<^verbatim>\<open>repr(s)\<close> of a str whose characters are the code points 0 to 255. Python writes
  single quotes around it, unless the string holds a single quote and no double quote;
  inside, the backslash and the chosen quote are preceded by a backslash, tab, newline and
  carriage return are written as a backslash and the letter t, n or r, and every other
  character that is not printable is written as a backslash, the letter x and the two
  lower-case hexadecimal digits of its code point. Among the code points
  0 to 255 the printable ones are 0x20 to 0x7E and 0xA1 to 0xFF without 0xAD (the controls
  0x00-0x1F and 0x7F-0x9F, the no-break space 0xA0 and the soft hyphen 0xAD are not).
\<close>

definition hex_digit :: "nat \<Rightarrow> char" where
  "hex_digit n = ''0123456789abcdef'' ! n"

definition printable :: "char \<Rightarrow> bool" where
  "printable c =
     (let n = (of_char c :: nat)
      in (32 \<le> n \<and> n < 127) \<or> (161 \<le> n \<and> n \<noteq> 173))"

definition repr_char :: "char \<Rightarrow> char \<Rightarrow> string" where
  "repr_char q c =
     (if c = CHR 0x5C then [CHR 0x5C, CHR 0x5C]
      else if c = q then [CHR 0x5C, q]
      else if c = CHR 0x09 then [CHR 0x5C, CHR ''t'']
      else if c = CHR 0x0A then [CHR 0x5C, CHR ''n'']
      else if c = CHR 0x0D then [CHR 0x5C, CHR ''r'']
      else if \<not> printable c
        then [CHR 0x5C, CHR ''x'', hex_digit ((of_char c :: nat) div 16),
              hex_digit ((of_char c :: nat) mod 16)]
      else [c])"

definition repr_str :: "string \<Rightarrow> string" where
  "repr_str s =
     (let q = (if CHR 0x27 \<in> set s \<and> CHR 0x22 \<notin> set s then CHR 0x22 else CHR 0x27)
      in q # concat (map (repr_char q) s) @ [q])"

text \<open>\<^verbatim>\<open>', '.join(xs)\<close> and \<^verbatim>\<open>str(xs)\<close> of a list of str.\<close>

fun join_comma :: "string list \<Rightarrow> string" where
  "join_comma [] = []"
| "join_comma [x] = x"
| "join_comma (x # y # ys) = x @ '', '' @ join_comma (y # ys)"

definition str_list :: "string list \<Rightarrow> string" where
  "str_list xs = ''['' @ join_comma (map repr_str xs) @ '']''"

text \<open>\<^verbatim>\<open>'{}={}'.format(k, v)\<close> for a value already rendered as text.\<close>

definition fmt_kv :: "string \<Rightarrow> string \<Rightarrow> string" where
  "fmt_kv k v = k @ ''='' @ v"

section \<open>The CloudFlare adapter\<close>

subsection \<open>Requests\<close>

text \<open>
  \<^verbatim>\<open>__cloudflare_request\<close> (lines 268-294). The \<^verbatim>\<open>args\<close> dict is the caller's
  \<^verbatim>\<open>kwargs\<close>, so the \<^verbatim>\<open>per_page\<close> entry it adds stays with the caller: the updated dict is
  returned with the result. The request is appended to the log of issued requests. (The
  lazily created session only carries the credential headers.)
\<close>

definition cloudflare_request ::
  "http \<Rightarrow> string \<Rightarrow> args \<Rightarrow> request list \<Rightarrow> (error + api_response) \<times> args \<times> request list" where
  "cloudflare_request http path args log =
     (let args1 = (if ''per_page'' \<in> fst ` set args then args
                   else AList.update ''per_page'' 100 args);
          response = http path args1;
          log1 = log @ [(path, args1)]
      in if status_code response \<noteq> 200
         then (Inl (CloudFlareError (''Request failed: '' @ response_text response)), args1, log1)
         else (Inr (json response), args1, log1))"

text \<open>
  The test that ends both pagination loops (lines 314 and 344):
  \<^verbatim>\<open>'total_pages' not in info or page == info['total_pages']\<close>.
\<close>

definition last_page :: "(string \<times> int) list \<Rightarrow> int \<Rightarrow> bool" where
  "last_page info page =
     (map_of info ''total_pages'' = None \<or> map_of info ''total_pages'' = Some page)"

subsection \<open>Listing zones\<close>

text \<open>
  \<^verbatim>\<open>__cloudflare_list_zones\<close> (lines 296-321). The \<^verbatim>\<open>while not done\<close> loop may run
  forever, so the loop is a partial function: \<open>None\<close> is a run that never returns. A run
  that ends gives the returned list or the exception raised, and the requests issued.
\<close>

partial_function (option) cloudflare_list_zones_loop ::
  "http \<Rightarrow> args \<Rightarrow> int \<Rightarrow> json_obj list \<Rightarrow> request list
     \<Rightarrow> ((error + json_obj list) \<times> request list) option" where
  "cloudflare_list_zones_loop http kwargs page zones log =
     (let kwargs1 = AList.update ''page'' page kwargs in
      case cloudflare_request http ''/zones'' kwargs1 log of
        (Inl e, kwargs2, log1) \<Rightarrow> Some (Inl e, log1)
      | (Inr response, kwargs2, log1) \<Rightarrow>
          (case result_info response of
             None \<Rightarrow> Some (Inl (KeyError ''result_info''), log1)
           | Some info \<Rightarrow>
               (case result response of
                  None \<Rightarrow> Some (Inl (KeyError ''result''), log1)
                | Some rows \<Rightarrow>
                    if last_page info page then Some (Inr (zones @ rows), log1)
                    else cloudflare_list_zones_loop http kwargs2 (page + 1) (zones @ rows) log1)))"

definition cloudflare_list_zones ::
  "http \<Rightarrow> args \<Rightarrow> request list \<Rightarrow> ((error + json_obj list) \<times> request list) option" where
  "cloudflare_list_zones http kwargs log = cloudflare_list_zones_loop http kwargs 1 [] log"

subsection \<open>Listing and merging the records of a zone\<close>

text \<open>
  The values of the \<^verbatim>\<open>records\<close> dict of \<^verbatim>\<open>__cloudflare_list_zone_records\<close>: dict literals
  with the keys \<^verbatim>\<open>name\<close>, \<^verbatim>\<open>value\<close>, \<^verbatim>\<open>type\<close>, in that order.
\<close>

record merged_record =
  mr_name :: string
  mr_value :: "string list"
  mr_type :: string

type_synonym merged = "(string \<times> merged_record) list"

text \<open>
  One pass of the \<^verbatim>\<open>for record in response['result']\<close> body (lines 349-357). The dict keeps
  insertion order: a name seen again is updated in place, a new name goes to the end, as
  \<open>AList.update\<close> does.
\<close>

definition merge_row :: "json_obj \<Rightarrow> merged \<Rightarrow> error + merged" where
  "merge_row row records =
     (case row_get row ''name'' of
        Inl e \<Rightarrow> Inl e
      | Inr name \<Rightarrow>
          (case map_of records name of
             Some m \<Rightarrow>
               (case row_get row ''content'' of
                  Inl e \<Rightarrow> Inl e
                | Inr content \<Rightarrow>
                    Inr (AList.update name (m\<lparr>mr_value := sort (mr_value m @ [content])\<rparr>)
                           records))
           | None \<Rightarrow>
               (case row_get row ''content'' of
                  Inl e \<Rightarrow> Inl e
                | Inr content \<Rightarrow>
                    (case row_get row ''type'' of
                       Inl e \<Rightarrow> Inl e
                     | Inr type \<Rightarrow>
                         Inr (AList.update name
                                \<lparr>mr_name = name, mr_value = sort [content], mr_type = type\<rparr>
                                records)))))"

fun merge_rows :: "json_obj list \<Rightarrow> merged \<Rightarrow> error + merged" where
  "merge_rows [] records = Inr records"
| "merge_rows (row # rows) records =
     (case merge_row row records of
        Inl e \<Rightarrow> Inl e
      | Inr records1 \<Rightarrow> merge_rows rows records1)"

definition records_path :: "string \<Rightarrow> string" where
  "records_path zoneID = ''/zones/'' @ zoneID @ ''/dns_records''"

text \<open>\<^verbatim>\<open>__cloudflare_list_zone_records\<close> (lines 323-359).\<close>

partial_function (option) cloudflare_list_zone_records_loop ::
  "http \<Rightarrow> string \<Rightarrow> args \<Rightarrow> int \<Rightarrow> merged \<Rightarrow> request list
     \<Rightarrow> ((error + merged_record list) \<times> request list) option" where
  "cloudflare_list_zone_records_loop http zoneID kwargs page records log =
     (let kwargs1 = AList.update ''page'' page kwargs in
      case cloudflare_request http (records_path zoneID) kwargs1 log of
        (Inl e, kwargs2, log1) \<Rightarrow> Some (Inl e, log1)
      | (Inr response, kwargs2, log1) \<Rightarrow>
          (case result_info response of
             None \<Rightarrow> Some (Inl (KeyError ''result_info''), log1)
           | Some info \<Rightarrow>
               (case result response of
                  None \<Rightarrow> Some (Inl (KeyError ''result''), log1)
                | Some rows \<Rightarrow>
                    (case merge_rows rows records of
                       Inl e \<Rightarrow> Some (Inl e, log1)
                     | Inr records1 \<Rightarrow>
                         if last_page info page then Some (Inr (map snd records1), log1)
                         else cloudflare_list_zone_records_loop http zoneID kwargs2 (page + 1)
                                records1 log1))))"

definition cloudflare_list_zone_records ::
  "http \<Rightarrow> string \<Rightarrow> args \<Rightarrow> request list
     \<Rightarrow> ((error + merged_record list) \<times> request list) option" where
  "cloudflare_list_zone_records http zoneID kwargs log =
     cloudflare_list_zone_records_loop http zoneID kwargs 1 [] log"


subsection \<open>Building the snapshot\<close>

text \<open>
  \<^verbatim>\<open>['{}={}'.format(k, v) for k, v in record.items()]\<close> (line 253), where \<^verbatim>\<open>record\<close> is a
  value of the dict returned by \<^verbatim>\<open>__cloudflare_list_zone_records\<close>: its keys are
  \<^verbatim>\<open>name\<close>, \<^verbatim>\<open>value\<close> (a list of str) and \<^verbatim>\<open>type\<close>.
\<close>

definition record_items :: "merged_record \<Rightarrow> string list" where
  "record_items r =
     [fmt_kv ''name'' (mr_name r), fmt_kv ''value'' (str_list (mr_value r)),
      fmt_kv ''type'' (mr_type r)]"

text \<open>The record dict appended at lines 252-258.\<close>

definition cloudflare_record :: "resource_id_fn \<Rightarrow> string \<Rightarrow> rid \<Rightarrow> merged_record \<Rightarrow> record_data" where
  "cloudflare_record get_resource_id zid zone_id r =
     \<lparr>rd_id = get_resource_id ''cfr'' [S zid, L (record_items r)],
      rd_zone_id = zone_id,
      rd_name = mr_name r,
      rd_value = mr_value r,
      rd_type = mr_type r\<rparr>"

text \<open>
  The zone dict of lines 242-258, once the records of the zone are listed: \<open>name\<close> and
  \<open>zid\<close> are \<^verbatim>\<open>zobj['name']\<close> and \<^verbatim>\<open>zobj['id']\<close>.
\<close>

definition cloudflare_zone :: "resource_id_fn \<Rightarrow> string \<Rightarrow> string \<Rightarrow> merged_record list \<Rightarrow> zone_data" where
  "cloudflare_zone get_resource_id name zid recs =
     \<lparr>zd_zone_id = get_resource_id ''cfz'' [S name],
      zd_name = name,
      zd_source = ''CloudFlare'',
      zd_comment = None,
      zd_tags = [],
      zd_records = map (cloudflare_record get_resource_id zid (get_resource_id ''cfz'' [S name])) recs\<rparr>"

text \<open>
  The \<^verbatim>\<open>for zobj in ...\<close> loop of \<^verbatim>\<open>get_cloudflare_records\<close> (lines 239-263). A
  \<^verbatim>\<open>CloudFlareError\<close> raised while listing the records of a zone is caught and the zone is
  skipped; any other exception leaves the function. \<open>None\<close> is a run in which a pagination
  loop never returns.
\<close>

fun get_cloudflare_records_loop ::
  "resource_id_fn \<Rightarrow> http \<Rightarrow> json_obj list \<Rightarrow> zone_data list \<Rightarrow> request list
     \<Rightarrow> ((error + zone_data list) \<times> request list) option" where
  "get_cloudflare_records_loop get_resource_id http [] zones log = Some (Inr zones, log)"
| "get_cloudflare_records_loop get_resource_id http (zobj # rest) zones log =
     (case row_get zobj ''name'' of
        Inl e \<Rightarrow> Some (Inl e, log)
      | Inr name \<Rightarrow>
          (case row_get zobj ''id'' of
             Inl e \<Rightarrow> Some (Inl e, log)
           | Inr zid \<Rightarrow>
               (case cloudflare_list_zone_records http zid [] log of
                  None \<Rightarrow> None
                | Some (Inl (CloudFlareError msg), log1) \<Rightarrow>
                    get_cloudflare_records_loop get_resource_id http rest zones log1
                | Some (Inl e, log1) \<Rightarrow> Some (Inl e, log1)
                | Some (Inr recs, log1) \<Rightarrow>
                    (let zone = cloudflare_zone get_resource_id name zid recs
                     in get_cloudflare_records_loop get_resource_id http rest
                          (if length (zd_records zone) > 0 then zones @ [zone] else zones) log1))))"

text \<open>\<^verbatim>\<open>get_cloudflare_records\<close> (lines 231-265).\<close>

definition get_cloudflare_records ::
  "resource_id_fn \<Rightarrow> http \<Rightarrow> request list \<Rightarrow> ((error + zone_data list) \<times> request list) option" where
  "get_cloudflare_records get_resource_id http log =
     (case cloudflare_list_zones http [] log of
        None \<Rightarrow> None
      | Some (Inl e, log1) \<Rightarrow> Some (Inl e, log1)
      | Some (Inr zobjs, log1) \<Rightarrow> get_cloudflare_records_loop get_resource_id http zobjs [] log1)"

section \<open>The zone-transfer adapter\<close>

text \<open>
  One element of \<^verbatim>\<open>z.iterate_rdatas()\<close>, by the texts the code takes from the
  \<^verbatim>\<open>dns\<close> library: \<^verbatim>\<open>str(name)\<close>, \<^verbatim>\<open>name.derelativize(z.origin).to_text()\<close>, the ttl,
  \<^verbatim>\<open>rdata.to_text()\<close> (which is also \<^verbatim>\<open>str(rdata)\<close>) and \<^verbatim>\<open>type_to_text(rdata.rdtype)\<close>.
\<close>

record xfr_rdata =
  rr_name :: string
  rr_fqdn :: string
  rr_ttl :: int
  rr_rdata :: string
  rr_rdtype :: string

text \<open>
  \<^verbatim>\<open>dns_zone.from_xfr(query.xfr(server, zoneName))\<close> followed by the iteration: the answer of
  the name server for a zone, or the exception raised on the way.
\<close>

type_synonym xfr = "string \<Rightarrow> string \<Rightarrow> error + xfr_rdata list"

text \<open>The record dict appended at lines 213-220.\<close>

definition axfr_record :: "resource_id_fn \<Rightarrow> rid \<Rightarrow> xfr_rdata \<Rightarrow> record_data" where
  "axfr_record get_resource_id zone_id rr =
     \<lparr>rd_id = get_resource_id ''axfrr''
               [S (rr_fqdn rr),
                L [fmt_kv ''name'' (rr_name rr), fmt_kv ''ttl'' (str_int (rr_ttl rr)),
                   fmt_kv ''rdata'' (rr_rdata rr)]],
      rd_zone_id = zone_id,
      rd_name = rr_fqdn rr,
      rd_value = sort [rr_rdata rr],
      rd_type = rr_rdtype rr\<rparr>"

text \<open>The zone dict of lines 200-220, once the zone is transferred.\<close>

definition axfr_zone :: "resource_id_fn \<Rightarrow> string \<Rightarrow> xfr_rdata list \<Rightarrow> zone_data" where
  "axfr_zone get_resource_id zoneName rrs =
     \<lparr>zd_zone_id = get_resource_id ''axfrz'' [S zoneName],
      zd_name = zoneName,
      zd_source = ''AXFR'',
      zd_comment = None,
      zd_tags = [],
      zd_records = map (axfr_record get_resource_id (get_resource_id ''axfrz'' [S zoneName])) rrs\<rparr>"

text \<open>
  The body of \<^verbatim>\<open>get_axfr_records\<close> (lines 197-229): any exception for a zone is logged and
  raised again, so the first failing zone ends the call.
\<close>

fun get_axfr_records_loop ::
  "resource_id_fn \<Rightarrow> xfr \<Rightarrow> string \<Rightarrow> string list \<Rightarrow> zone_data list \<Rightarrow> error + zone_data list" where
  "get_axfr_records_loop get_resource_id xfr server [] zones = Inr zones"
| "get_axfr_records_loop get_resource_id xfr server (zoneName # rest) zones =
     (case xfr server zoneName of
        Inl e \<Rightarrow> Inl e
      | Inr rrs \<Rightarrow>
          (let zone = axfr_zone get_resource_id zoneName rrs
           in get_axfr_records_loop get_resource_id xfr server rest
                (if length (zd_records zone) > 0 then zones @ [zone] else zones)))"

text \<open>
  Modelled from the spec: the \<^verbatim>\<open>@retry\<close> decorator of \<^verbatim>\<open>get_axfr_records\<close> is imported
  from \<^verbatim>\<open>cloud_inquisitor.wrappers\<close>. The spec describes a bounded retry policy with a finite
  attempt count: the call is attempted again after an exception, and the exception of the
  last attempt leaves the call. \<open>retry n\<close> makes at most \<open>n + 1\<close> attempts; attempt \<open>i\<close> is
  \<open>f i\<close>.
\<close>

fun retry :: "nat \<Rightarrow> (nat \<Rightarrow> error + 'a) \<Rightarrow> error + 'a" where
  "retry 0 f = f 0"
| "retry (Suc n) f = (case f 0 of Inr x \<Rightarrow> Inr x | Inl e \<Rightarrow> retry n (\<lambda>i. f (Suc i)))"

text \<open>
  \<^verbatim>\<open>get_axfr_records\<close> (lines 190-229); \<open>xfrs i\<close> is what the name server answers during
  attempt \<open>i\<close>.
\<close>

definition get_axfr_records ::
  "resource_id_fn \<Rightarrow> (nat \<Rightarrow> xfr) \<Rightarrow> string \<Rightarrow> string list \<Rightarrow> nat \<Rightarrow> error + zone_data list" where
  "get_axfr_records get_resource_id xfrs server domains retries =
     retry retries (\<lambda>i. get_axfr_records_loop get_resource_id (xfrs i) server domains [])"


section \<open>The inventory\<close>

text \<open>
  Modelled from the spec: \<^verbatim>\<open>DNSZone\<close>, \<^verbatim>\<open>DNSRecord\<close> and \<^verbatim>\<open>db.session\<close> are imported from
  \<^verbatim>\<open>cloud_inquisitor\<close>, and every definition of this section stands for them. They follow
  the storage collaborator of section 6 of the spec,
  \<^verbatim>\<open>get_all(account) -> mapping[id -> Zone]\<close>, \<^verbatim>\<open>get(id) -> Zone|None\<close>,
  \<^verbatim>\<open>create(id, account_id, properties, tags)\<close>, \<^verbatim>\<open>update(data) -> changed\<close> (mutates in
  place, returns whether anything changed), a way to add a child record to a zone; the
  transactional boundaries of section 5 (changes are pending until a commit, a rollback
  discards them); the persistence failures of section 7; and ids that are primary lookup
  keys (section 4.1).
\<close>

text \<open>
  Modelled from the spec: a resource is stored with its account, its properties, its tags
  and, for a record, the zone that owns it.
\<close>

datatype pval = PStr string | PList "string list" | PNone

type_synonym props = "(string \<times> pval) list"

record resource =
  res_account :: int
  res_props :: props
  res_tags :: "(string \<times> string) list"
  res_parent :: "rid option"

text \<open>
  Modelled from the spec: a table is read as the finite map it denotes. \<open>map_of\<close> finds the
  row of an id, and \<open>table_rows\<close> lists every id once with that row.
\<close>

type_synonym table = "(rid \<times> resource) list"

definition table_rows :: "table \<Rightarrow> table" where
  "table_rows t = AList.clearjunk t"

record tables =
  zone_tbl :: table
  record_tbl :: table

text \<open>
  Modelled from the spec: a write the collector issues, \<^verbatim>\<open>create\<close>, \<^verbatim>\<open>db.session.add\<close> of
  a changed resource, or \<^verbatim>\<open>db.session.delete\<close>.
\<close>

datatype write_op = Create rid | Update rid | Delete rid

text \<open>
  Modelled from the spec: the database and its session, that is the committed tables, the
  tables as the session sees them (committed and pending changes), the writes issued so far, the outcomes of the commits
  to come (\<open>True\<close>: the commit raises), and the zones whose record phase logged an
  exception (lines 183-186).
\<close>

record db =
  stored :: tables
  session :: tables
  writes :: "write_op list"
  commit_faults :: "bool list"
  failures :: "(rid \<times> error) list"

record account =
  account_id :: int
  account_name :: string

text \<open>Modelled from the spec: \<^verbatim>\<open>db.session.commit()\<close> and \<^verbatim>\<open>db.session.rollback()\<close>.\<close>

definition commit :: "db \<Rightarrow> (error + unit) \<times> db" where
  "commit st =
     (case commit_faults st of
        True # fs \<Rightarrow> (Inl DatabaseError, st\<lparr>commit_faults := fs\<rparr>)
      | False # fs \<Rightarrow> (Inr (), st\<lparr>stored := session st, commit_faults := fs\<rparr>)
      | [] \<Rightarrow> (Inr (), st\<lparr>stored := session st\<rparr>))"

definition rollback :: "db \<Rightarrow> db" where
  "rollback st = st\<lparr>session := stored st\<rparr>"

text \<open>
  Modelled from the spec: \<^verbatim>\<open>DNSZone.get_all(account)\<close>, \<^verbatim>\<open>DNSZone.get(id)\<close> and
  \<^verbatim>\<open>zone.records\<close>.
\<close>

definition get_all :: "account \<Rightarrow> tables \<Rightarrow> table" where
  "get_all acct t = filter (\<lambda>(k, r). res_account r = account_id acct) (table_rows (zone_tbl t))"

definition get_zone :: "tables \<Rightarrow> rid \<Rightarrow> resource option" where
  "get_zone t zid = map_of (zone_tbl t) zid"

definition zone_records :: "tables \<Rightarrow> rid \<Rightarrow> table" where
  "zone_records t zid = filter (\<lambda>(k, r). res_parent r = Some zid) (table_rows (record_tbl t))"

text \<open>
  Modelled from the spec: \<^verbatim>\<open>create(id, account_id=..., properties=..., tags=...)\<close> gives the
  new resource, and the table with its row; an id that is already stored is refused.
\<close>

definition create ::
  "rid \<Rightarrow> int \<Rightarrow> props \<Rightarrow> (string \<times> string) list \<Rightarrow> table \<Rightarrow> error + resource \<times> table" where
  "create rid acct properties tags t =
     (if map_of t rid \<noteq> None then Inl (IntegrityError rid)
      else (let r = \<lparr>res_account = acct, res_props = properties, res_tags = tags,
                      res_parent = None\<rparr>
            in Inr (r, AList.update rid r t)))"

text \<open>
  Modelled from the spec: \<^verbatim>\<open>update(data)\<close> sets every property of the data that differs from
  the stored one; the result says whether any did.
\<close>

fun update_props :: "props \<Rightarrow> props \<Rightarrow> bool \<times> props" where
  "update_props [] old = (False, old)"
| "update_props ((k, v) # new) old =
     (if map_of old k = Some v then update_props new old
      else (True, snd (update_props new (AList.update k v old))))"

text \<open>
  The properties of a zone and of a record, as the two \<^verbatim>\<open>create\<close> calls select them
  (lines 110 and 159): every key of the dict but \<^verbatim>\<open>records\<close>, \<^verbatim>\<open>zone_id\<close> (and \<^verbatim>\<open>tags\<close>
  for a zone).
\<close>

definition zone_props :: "zone_data \<Rightarrow> props" where
  "zone_props data =
     [(''name'', PStr (zd_name data)), (''source'', PStr (zd_source data)),
      (''comment'', case zd_comment data of None \<Rightarrow> PNone | Some c \<Rightarrow> PStr c)]"

definition record_props :: "record_data \<Rightarrow> props" where
  "record_props data =
     [(''id'', PStr (rd_id data)), (''name'', PStr (rd_name data)),
      (''value'', PList (rd_value data)), (''type'', PStr (rd_type data))]"

text \<open>
  Modelled from the spec: \<^verbatim>\<open>zone.update(data)\<close> and \<^verbatim>\<open>record.update(data)\<close> compare the
  properties that \<^verbatim>\<open>create\<close> stores for the data (and, for a zone, its tags), set those that
  differ and say whether anything changed.
\<close>

definition zone_update :: "resource \<Rightarrow> zone_data \<Rightarrow> bool \<times> resource" where
  "zone_update zone data =
     (let (changed, ps) = update_props (zone_props data) (res_props zone)
      in (changed \<or> res_tags zone \<noteq> zd_tags data,
          zone\<lparr>res_props := ps, res_tags := zd_tags data\<rparr>))"

definition record_update :: "resource \<Rightarrow> record_data \<Rightarrow> bool \<times> resource" where
  "record_update record data =
     (let (changed, ps) = update_props (record_props data) (res_props record)
      in (changed, record\<lparr>res_props := ps\<rparr>))"

text \<open>Modelled from the spec: writing the session's tables.\<close>

definition put_zone :: "rid \<Rightarrow> resource \<Rightarrow> db \<Rightarrow> db" where
  "put_zone rid r st = st\<lparr>session := (session st)\<lparr>zone_tbl := AList.update rid r (zone_tbl (session st))\<rparr>\<rparr>"

definition put_record :: "rid \<Rightarrow> resource \<Rightarrow> db \<Rightarrow> db" where
  "put_record rid r st =
     st\<lparr>session := (session st)\<lparr>record_tbl := AList.update rid r (record_tbl (session st))\<rparr>\<rparr>"

definition issue :: "write_op \<Rightarrow> db \<Rightarrow> db" where
  "issue w st = st\<lparr>writes := writes st @ [w]\<rparr>"

text \<open>
  Modelled from the spec: \<^verbatim>\<open>db.session.delete(record.resource)\<close> and
  \<^verbatim>\<open>db.session.delete(zone.resource)\<close>.
\<close>

definition delete_record :: "db \<Rightarrow> rid \<Rightarrow> db" where
  "delete_record st rid =
     issue (Delete rid)
       (st\<lparr>session := (session st)\<lparr>record_tbl := AList.delete rid (record_tbl (session st))\<rparr>\<rparr>)"

definition delete_zone :: "db \<Rightarrow> rid \<Rightarrow> db" where
  "delete_zone st zid =
     issue (Delete zid)
       (st\<lparr>session := (session st)\<lparr>zone_tbl := AList.delete zid (zone_tbl (session st))\<rparr>\<rparr>)"


section \<open>Reconciliation: \<^verbatim>\<open>process_zones\<close>\<close>

subsection \<open>Zones (lines 95-137)\<close>

text \<open>
  The loop of lines 97-117. \<open>ezk\<close> are the keys of \<^verbatim>\<open>existing_zones\<close>, read once before
  the loop. Nothing in this region is inside a \<^verbatim>\<open>try\<close>: an exception leaves
  \<^verbatim>\<open>process_zones\<close>.
\<close>

fun update_zones :: "account \<Rightarrow> rid list \<Rightarrow> zone_data list \<Rightarrow> db \<Rightarrow> (error + unit) \<times> db" where
  "update_zones acct ezk [] st = (Inr (), st)"
| "update_zones acct ezk (data # rest) st =
     (if zd_zone_id data \<in> set ezk then
        (case get_zone (session st) (zd_zone_id data) of
           None \<Rightarrow> (Inl (AttributeError ''update''), st)
         | Some zone \<Rightarrow>
             (let (changed, zone1) = zone_update zone data
              in update_zones acct ezk rest
                   (if changed then issue (Update (zd_zone_id data)) (put_zone (zd_zone_id data) zone1 st)
                    else st)))
      else
        (case create (zd_zone_id data) (account_id acct) (zone_props data) (zd_tags data)
                (zone_tbl (session st)) of
           Inl e \<Rightarrow> (Inl e, st)
         | Inr (zone, t) \<Rightarrow>
             update_zones acct ezk rest
               (issue (Create (zd_zone_id data)) (st\<lparr>session := (session st)\<lparr>zone_tbl := t\<rparr>\<rparr>))))"

text \<open>
  The loop of lines 124-135 over \<^verbatim>\<open>ezk - zk\<close>: the records of the zone, read at that
  moment, are deleted, then the zone. (The order in which Python walks the set is not
  fixed; the model takes the order of \<^verbatim>\<open>existing_zones\<close>.)
\<close>

fun delete_zones :: "rid list \<Rightarrow> db \<Rightarrow> db" where
  "delete_zones [] st = st"
| "delete_zones (zid # rest) st =
     delete_zones rest
       (delete_zone (foldl delete_record st (map fst (zone_records (session st) zid))) zid)"

definition zone_phase :: "account \<Rightarrow> zone_data list \<Rightarrow> db \<Rightarrow> (error + unit) \<times> db" where
  "zone_phase acct zones st =
     (let ezk = map fst (get_all acct (session st)) in
      case update_zones acct ezk zones st of
        (Inl e, st1) \<Rightarrow> (Inl e, st1)
      | (Inr u, st1) \<Rightarrow>
          (case commit st1 of
             (Inl e, st2) \<Rightarrow> (Inl e, st2)
           | (Inr u, st2) \<Rightarrow>
               commit (delete_zones (filter (\<lambda>k. k \<notin> set (map zd_zone_id zones)) ezk) st2)))"

subsection \<open>Records of one zone (lines 141-187)\<close>

text \<open>
  The loop of lines 145-167. \<open>existing_records\<close> is the dict built at line 143; a new
  record is created and then attached to the zone (\<^verbatim>\<open>existing_zone.add_record\<close>). When
  \<^verbatim>\<open>record.update(data)\<close> reports a change, the arguments of the debug message are
  evaluated: \<^verbatim>\<open>zone.name\<close>, where \<^verbatim>\<open>zone\<close> is the snapshot dict of the enclosing loop
  (\<^verbatim>\<open>zone['zone_id']\<close>, \<^verbatim>\<open>zone['records']\<close>, \<^verbatim>\<open>zone['name']\<close> elsewhere), raises
  \<^verbatim>\<open>AttributeError\<close>; \<^verbatim>\<open>db.session.add\<close> on the next line is not reached.
\<close>

fun update_records ::
  "account \<Rightarrow> zone_data \<Rightarrow> table \<Rightarrow> record_data list \<Rightarrow> db \<Rightarrow> (error + unit) \<times> db" where
  "update_records acct zone existing_records [] st = (Inr (), st)"
| "update_records acct zone existing_records (data # rest) st =
     (case map_of existing_records (rd_id data) of
        Some record \<Rightarrow>
          (let (changed, record1) = record_update record data
           in if changed then (Inl (AttributeError ''name''), put_record (rd_id data) record1 st)
              else update_records acct zone existing_records rest st)
      | None \<Rightarrow>
          (case create (rd_id data) (account_id acct) (record_props data) []
                  (record_tbl (session st)) of
             Inl e \<Rightarrow> (Inl e, st)
           | Inr (record, t) \<Rightarrow>
               update_records acct zone existing_records rest
                 (put_record (rd_id data) (record\<lparr>res_parent := Some (zd_zone_id zone)\<rparr>)
                    (issue (Create (rd_id data))
                       (st\<lparr>session := (session st)\<lparr>record_tbl := t\<rparr>\<rparr>)))))"

text \<open>
  The body of the \<^verbatim>\<open>try\<close> (lines 142-181), in its two stages. First (lines 142-168) the
  zone and its records are read, the snapshot's records are updated or created, and the
  session is committed; \<open>existing_records\<close> is kept for the second stage. Then (lines
  170-181) the stored records absent from the snapshot are deleted, and the session is
  committed again. (The order in which Python walks the set \<^verbatim>\<open>erk - rk\<close> is not fixed; the
  model takes the order of \<^verbatim>\<open>existing_records\<close>.)
\<close>

definition record_upserts :: "account \<Rightarrow> zone_data \<Rightarrow> db \<Rightarrow> (error + table) \<times> db" where
  "record_upserts acct zone st =
     (case get_zone (session st) (zd_zone_id zone) of
        None \<Rightarrow> (Inl (AttributeError ''records''), st)
      | Some existing_zone \<Rightarrow>
          (let existing_records = zone_records (session st) (zd_zone_id zone) in
           case update_records acct zone existing_records (zd_records zone) st of
             (Inl e, st1) \<Rightarrow> (Inl e, st1)
           | (Inr u, st1) \<Rightarrow>
               (case commit st1 of
                  (Inl e, st2) \<Rightarrow> (Inl e, st2)
                | (Inr u, st2) \<Rightarrow> (Inr existing_records, st2))))"

definition record_deletes :: "zone_data \<Rightarrow> table \<Rightarrow> db \<Rightarrow> (error + unit) \<times> db" where
  "record_deletes zone existing_records st =
     commit (foldl delete_record st
               (filter (\<lambda>k. k \<notin> set (map rd_id (zd_records zone))) (map fst existing_records)))"

definition record_pass :: "account \<Rightarrow> zone_data \<Rightarrow> db \<Rightarrow> (error + unit) \<times> db" where
  "record_pass acct zone st =
     (case record_upserts acct zone st of
        (Inl e, st1) \<Rightarrow> (Inl e, st1)
      | (Inr existing_records, st1) \<Rightarrow> record_deletes zone existing_records st1)"

text \<open>The \<^verbatim>\<open>try\<close> with its \<^verbatim>\<open>except\<close> (lines 182-187): log, roll back, go on.\<close>

definition record_phase :: "account \<Rightarrow> db \<Rightarrow> zone_data \<Rightarrow> db" where
  "record_phase acct st zone =
     (case record_pass acct zone st of
        (Inl e, st1) \<Rightarrow> rollback (st1\<lparr>failures := failures st1 @ [(zd_zone_id zone, e)]\<rparr>)
      | (Inr u, st1) \<Rightarrow> st1)"

subsection \<open>\<^verbatim>\<open>process_zones\<close> (lines 92-188)\<close>

definition process_zones :: "zone_data list \<Rightarrow> account \<Rightarrow> db \<Rightarrow> (error + unit) \<times> db" where
  "process_zones zones acct st =
     (case zone_phase acct zones st of
        (Inl e, st1) \<Rightarrow> (Inl e, st1)
      | (Inr u, st1) \<Rightarrow> (Inr (), foldl (record_phase acct) st1 zones))"

section \<open>The browsing views\<close>

text \<open>
  Python's \<^verbatim>\<open>xs[start:end]\<close> for ints: a negative index counts from the end, and both ends
  are clamped to the list.
\<close>

definition clamp_index :: "nat \<Rightarrow> int \<Rightarrow> nat" where
  "clamp_index n i = (if i < 0 then nat (max 0 (int n + i)) else min n (nat i))"

definition py_slice :: "'a list \<Rightarrow> int \<Rightarrow> int \<Rightarrow> 'a list" where
  "py_slice xs start stop =
     (let a = clamp_index (length xs) start; b = clamp_index (length xs) stop
      in take (b - a) (drop a xs))"

text \<open>The parsed request arguments of \<^verbatim>\<open>DNSZoneRecords.get\<close> (lines 60-64).\<close>

record records_args =
  arg_page :: int
  arg_type :: "string option"
  arg_count :: int

record records_response =
  response_recordCount :: nat
  response_records :: table

text \<open>
  \<^verbatim>\<open>DNSZoneRecords.get\<close> (lines 59-72), between its decorators. A zone that is not found
  is \<^verbatim>\<open>None\<close>, and \<^verbatim>\<open>zone.records\<close> raises.
\<close>

definition DNSZoneRecords_get :: "tables \<Rightarrow> rid \<Rightarrow> records_args \<Rightarrow> error + records_response" where
  "DNSZoneRecords_get t zone_id args =
     (case get_zone t zone_id of
        None \<Rightarrow> Inl (AttributeError ''records'')
      | Some zone \<Rightarrow>
          (let start_offset = (arg_page args - 1) * arg_count args;
               end_offset = start_offset + arg_count args
           in Inr \<lparr>response_recordCount = length (zone_records t zone_id),
                   response_records = py_slice (zone_records t zone_id) start_offset end_offset\<rparr>))"

section \<open>Notions used in the statements\<close>

subsection \<open>What a listing requests and receives\<close>

text \<open>
  Both listing helpers are called without extra arguments (lines 239 and 251), so the
  parameters of the request for page \<open>p\<close> are the page number and the \<^verbatim>\<open>per_page\<close> entry
  added by \<^verbatim>\<open>__cloudflare_request\<close>.
\<close>

definition page_args :: "int \<Rightarrow> args" where
  "page_args p = [(''page'', p), (''per_page'', 100)]"

definition page_requests :: "string \<Rightarrow> nat \<Rightarrow> request list" where
  "page_requests path n = map (\<lambda>k. (path, page_args (int k))) [1..<Suc n]"

text \<open>
  What one pass of a pagination loop reads from the answer to the request for page \<open>p\<close>:
  the exception it raises, or \<^verbatim>\<open>result_info\<close> and \<^verbatim>\<open>result\<close>.
\<close>

definition page_of :: "http \<Rightarrow> string \<Rightarrow> int \<Rightarrow> error + ((string \<times> int) list \<times> json_obj list)" where
  "page_of http path p =
     (let r = http path (page_args p) in
      if status_code r \<noteq> 200
      then Inl (CloudFlareError (''Request failed: '' @ response_text r))
      else (case result_info (json r) of
              None \<Rightarrow> Inl (KeyError ''result_info'')
            | Some info \<Rightarrow>
                (case result (json r) of
                   None \<Rightarrow> Inl (KeyError ''result'')
                 | Some rs \<Rightarrow> Inr (info, rs))))"

text \<open>
  Page \<open>p\<close> is answered, and its \<^verbatim>\<open>result_info\<close> lacks \<^verbatim>\<open>total_pages\<close> or reports
  \<open>total_pages = p\<close>.
\<close>

definition final_page :: "http \<Rightarrow> string \<Rightarrow> int \<Rightarrow> bool" where
  "final_page http path p =
     (case page_of http path p of Inl e \<Rightarrow> False | Inr (info, rs) \<Rightarrow> last_page info p)"

text \<open>The raw rows of page \<open>p\<close>, and of the pages \<open>1, ..., n\<close> in order.\<close>

definition page_rows :: "http \<Rightarrow> string \<Rightarrow> int \<Rightarrow> json_obj list" where
  "page_rows http path p = (case page_of http path p of Inl e \<Rightarrow> [] | Inr (info, rs) \<Rightarrow> rs)"

definition fetched_rows :: "http \<Rightarrow> string \<Rightarrow> nat \<Rightarrow> json_obj list" where
  "fetched_rows http path n = concat (map (\<lambda>k. page_rows http path (int k)) [1..<Suc n])"

text \<open>A page at which a loop ends: its request or its reading fails, or it is final.\<close>

definition zones_stop :: "http \<Rightarrow> int \<Rightarrow> bool" where
  "zones_stop http p =
    (case page_of http ''/zones'' p of Inl e \<Rightarrow> True | Inr (info, rs) \<Rightarrow> last_page info p)"

definition records_stop :: "http \<Rightarrow> string \<Rightarrow> int \<Rightarrow> bool" where
  "records_stop http zid p =
    (case page_of http (records_path zid) p of
       Inl e \<Rightarrow> True
     | Inr (info, rs) \<Rightarrow> last_page info p)"

text \<open>The \<^verbatim>\<open>kwargs\<close> a loop holds: empty at the first pass, the last request's afterwards.\<close>

definition kw_ok :: "args \<Rightarrow> bool" where
  "kw_ok kwargs \<longleftrightarrow> kwargs = [] \<or> (\<exists>q. kwargs = page_args q)"

subsection \<open>Raw rows by name\<close>

text \<open>
  The names of a list of raw rows; the \<^verbatim>\<open>content\<close> values of the rows with a given name, in
  the order of the rows; the \<^verbatim>\<open>type\<close> of the first row with that name; a row that has the
  three keys the merge reads.
\<close>

definition row_names :: "json_obj list \<Rightarrow> string list" where
  "row_names rs = concat (map (\<lambda>row. case map_of row ''name'' of None \<Rightarrow> [] | Some n \<Rightarrow> [n]) rs)"

definition contents_of :: "string \<Rightarrow> json_obj list \<Rightarrow> string list" where
  "contents_of n rs =
     concat (map (\<lambda>row. case map_of row ''content'' of None \<Rightarrow> [] | Some c \<Rightarrow> [c])
               (filter (\<lambda>row. map_of row ''name'' = Some n) rs))"

definition first_type :: "string \<Rightarrow> json_obj list \<Rightarrow> string" where
  "first_type n rs =
     (case filter (\<lambda>row. map_of row ''name'' = Some n) rs of
        [] \<Rightarrow> []
      | row # _ \<Rightarrow> (case map_of row ''type'' of None \<Rightarrow> [] | Some t \<Rightarrow> t))"

definition row_ok :: "json_obj \<Rightarrow> bool" where
  "row_ok row \<longleftrightarrow>
     map_of row ''name'' \<noteq> None \<and> map_of row ''content'' \<noteq> None \<and> map_of row ''type'' \<noteq> None"

text \<open>
  The invariant of the \<^verbatim>\<open>records\<close> dict: one entry per name, holding that name and a
  sorted value list.
\<close>

definition merged_inv :: "merged \<Rightarrow> bool" where
  "merged_inv records \<longleftrightarrow>
     distinct (map fst records) \<and> (\<forall>(k, r) \<in> set records. mr_name r = k \<and> sorted (mr_value r))"

subsection \<open>Example inputs\<close>

text \<open>
  A response with status 200 that reports \<open>tp\<close> total pages; a server that answers every
  path so, with the rows \<open>rs p\<close> on page \<open>p\<close>; raw record rows.
\<close>

definition example_page :: "int \<Rightarrow> json_obj list \<Rightarrow> http_response" where
  "example_page tp rs =
     \<lparr>status_code = 200, response_text = [],
      json = \<lparr>result_info = Some [(''total_pages'', tp)], result = Some rs\<rparr>\<rparr>"

definition example_server :: "int \<Rightarrow> (int \<Rightarrow> json_obj list) \<Rightarrow> http" where
  "example_server tp rs path args =
     (case map_of args ''page'' of
        None \<Rightarrow> \<lparr>status_code = 400, response_text = ''page missing'',
                  json = \<lparr>result_info = None, result = None\<rparr>\<rparr>
      | Some p \<Rightarrow> example_page tp (rs p))"

definition example_row :: "string \<Rightarrow> string \<Rightarrow> string \<Rightarrow> json_obj" where
  "example_row n t c = [(''id'', c), (''type'', t), (''name'', n), (''content'', c)]"

definition example_rows :: "int \<Rightarrow> json_obj list" where
  "example_rows p =
     (if p = 1 then [example_row ''www.example.com'' ''A'' ''2.2.2.2'']
      else if p = 2 then [example_row ''mail.example.com'' ''A'' ''3.3.3.3'']
      else [example_row ''www.example.com'' ''A'' ''1.1.1.1''])"

text \<open>
  The \<^verbatim>\<open>key=value\<close> rendering of a raw row. An API with two zones, the first holding the
  record rows \<open>rs\<close> and the second none. A stand-in for \<^verbatim>\<open>get_resource_id\<close> that keeps its
  arguments readable.
\<close>

definition row_items :: "json_obj \<Rightarrow> string list" where
  "row_items row = map (\<lambda>(k, v). fmt_kv k v) row"

definition example_api :: "json_obj list \<Rightarrow> http" where
  "example_api rs path args =
     (if path = ''/zones''
      then example_page 1 [[(''id'', ''z1''), (''name'', ''example.com'')],
                           [(''id'', ''z2''), (''name'', ''example.org'')]]
      else if path = ''/zones/z1/dns_records'' then example_page 1 rs
      else example_page 1 [])"

definition example_resource_id :: resource_id_fn where
  "example_resource_id prefix parts =
     prefix @ concat (map (\<lambda>p. case p of S s \<Rightarrow> ''|'' @ s | L xs \<Rightarrow> concat (map (\<lambda>x. ''|'' @ x) xs)) parts)"

text \<open>A name server that transfers one zone with a record and one zone without.\<close>

definition example_xfr :: xfr where
  "example_xfr server zoneName =
     (if zoneName = ''example.com''
      then Inr [\<lparr>rr_name = ''www'', rr_fqdn = ''www.example.com.'', rr_ttl = 300,
                 rr_rdata = ''1.1.1.1'', rr_rdtype = ''A''\<rparr>]
      else if zoneName = ''example.org'' then Inr []
      else Inl (TransferError zoneName))"

subsection \<open>The inventory of a zone\<close>

text \<open>
  The ids of the records attached to a zone; the writes a run added to the trace; an
  entry of a list that comes before another.
\<close>

definition children :: "tables \<Rightarrow> rid \<Rightarrow> rid set" where
  "children t zid = set (map fst (zone_records t zid))"

definition new_writes :: "db \<Rightarrow> db \<Rightarrow> write_op list" where
  "new_writes st st1 = drop (length (writes st)) (writes st1)"

definition precedes :: "'a \<Rightarrow> 'a \<Rightarrow> 'a list \<Rightarrow> bool" where
  "precedes a b xs \<longleftrightarrow> b \<in> set (tl (dropWhile (\<lambda>x. x \<noteq> a) xs))"

text \<open>
  A stored zone agrees with its snapshot: it belongs to the account and an update finds
  nothing to change; its stored records are those of the snapshot, and an update finds
  nothing to change in any of them.
\<close>

definition zone_row_synced :: "tables \<Rightarrow> account \<Rightarrow> zone_data \<Rightarrow> bool" where
  "zone_row_synced t acct z \<longleftrightarrow>
     (case map_of (zone_tbl t) (zd_zone_id z) of
        None \<Rightarrow> False
      | Some r \<Rightarrow> res_account r = account_id acct \<and> \<not> fst (zone_update r z))"

definition records_synced :: "tables \<Rightarrow> zone_data \<Rightarrow> bool" where
  "records_synced t z \<longleftrightarrow>
     children t (zd_zone_id z) = set (map rd_id (zd_records z)) \<and>
     list_all (\<lambda>d. case map_of (record_tbl t) (rd_id d) of
                      None \<Rightarrow> False
                    | Some r \<Rightarrow> res_parent r = Some (zd_zone_id z) \<and> \<not> fst (record_update r d))
       (zd_records z)"

text \<open>
  The rows that a run stores for a zone and for a record of the snapshot that it creates
  (lines 107-112 and 156-167).
\<close>

definition new_zone :: "account \<Rightarrow> zone_data \<Rightarrow> resource" where
  "new_zone acct d =
     \<lparr>res_account = account_id acct, res_props = zone_props d, res_tags = zd_tags d,
      res_parent = None\<rparr>"

definition new_record :: "account \<Rightarrow> zone_data \<Rightarrow> record_data \<Rightarrow> resource" where
  "new_record acct zone d =
     \<lparr>res_account = account_id acct, res_props = record_props d, res_tags = [],
      res_parent = Some (zd_zone_id zone)\<rparr>"

subsection \<open>Example inventories\<close>

text \<open>
  An account; snapshot records and zones; the rows a run stores for them; a database at
  rest that stores the given zones, with the given outcomes of the commits to come.
\<close>

definition example_account :: account where
  "example_account = \<lparr>account_id = 1, account_name = ''DNS: AXFR''\<rparr>"

definition example_record :: "rid \<Rightarrow> string \<Rightarrow> string \<Rightarrow> record_data" where
  "example_record rid t v =
     \<lparr>rd_id = rid, rd_zone_id = ''Z'', rd_name = ''www.example.com'', rd_value = [v], rd_type = t\<rparr>"

definition example_zone :: "rid \<Rightarrow> string \<Rightarrow> record_data list \<Rightarrow> zone_data" where
  "example_zone zid name rs =
     \<lparr>zd_zone_id = zid, zd_name = name, zd_source = ''AXFR'', zd_comment = None, zd_tags = [],
      zd_records = rs\<rparr>"

definition stored_record :: "rid \<Rightarrow> record_data \<Rightarrow> rid \<times> resource" where
  "stored_record zid data =
     (rd_id data,
      \<lparr>res_account = 1, res_props = record_props data, res_tags = [], res_parent = Some zid\<rparr>)"

definition stored_zone :: "zone_data \<Rightarrow> rid \<times> resource" where
  "stored_zone data =
     (zd_zone_id data,
      \<lparr>res_account = 1, res_props = zone_props data, res_tags = zd_tags data, res_parent = None\<rparr>)"

definition example_tables :: "zone_data list \<Rightarrow> tables" where
  "example_tables zs =
     \<lparr>zone_tbl = map stored_zone zs,
      record_tbl = concat (map (\<lambda>z. map (stored_record (zd_zone_id z)) (zd_records z)) zs)\<rparr>"

definition example_db :: "zone_data list \<Rightarrow> bool list \<Rightarrow> db" where
  "example_db zs faults =
     \<lparr>stored = example_tables zs, session = example_tables zs, writes = [],
      commit_faults = faults, failures = []\<rparr>"
section \<open>Properties of the CloudFlare adapter\<close>

subsection \<open>One pass of a pagination loop\<close>

lemma kw_ok_simps [simp]: "kw_ok []" "kw_ok (page_args q)"
  by (auto simp: kw_ok_def)

lemma cloudflare_request_page:
  assumes "kw_ok kwargs"
  shows "cloudflare_request http path (AList.update ''page'' p kwargs) log =
     (if status_code (http path (page_args p)) \<noteq> 200
      then Inl (CloudFlareError (''Request failed: '' @ response_text (http path (page_args p))))
      else Inr (json (http path (page_args p))),
      page_args p, log @ [(path, page_args p)])"
  using assms by (auto simp: cloudflare_request_def page_args_def Let_def kw_ok_def)

lemma zones_loop_unfold:
  assumes "kw_ok kwargs"
  shows "cloudflare_list_zones_loop http kwargs p zones log =
     (case page_of http ''/zones'' p of
        Inl e \<Rightarrow> Some (Inl e, log @ [(''/zones'', page_args p)])
      | Inr (info, rows) \<Rightarrow>
          if last_page info p then Some (Inr (zones @ rows), log @ [(''/zones'', page_args p)])
          else cloudflare_list_zones_loop http (page_args p) (p + 1) (zones @ rows)
                 (log @ [(''/zones'', page_args p)]))"
  apply (subst cloudflare_list_zones_loop.simps)
  apply (simp add: cloudflare_request_page[OF assms] Let_def page_of_def split: option.splits)
  done

lemma records_loop_unfold:
  assumes "kw_ok kwargs"
  shows "cloudflare_list_zone_records_loop http zid kwargs p records log =
     (case page_of http (records_path zid) p of
        Inl e \<Rightarrow> Some (Inl e, log @ [(records_path zid, page_args p)])
      | Inr (info, rows) \<Rightarrow>
          (case merge_rows rows records of
             Inl e \<Rightarrow> Some (Inl e, log @ [(records_path zid, page_args p)])
           | Inr records1 \<Rightarrow>
               if last_page info p
               then Some (Inr (map snd records1), log @ [(records_path zid, page_args p)])
               else cloudflare_list_zone_records_loop http zid (page_args p) (p + 1) records1
                      (log @ [(records_path zid, page_args p)])))"
  apply (subst cloudflare_list_zone_records_loop.simps)
  apply (simp add: cloudflare_request_page[OF assms] Let_def page_of_def split: option.splits)
  done

subsection \<open>When the loops end\<close>

lemma zones_loop_ends:
  assumes "kw_ok kwargs" "p \<le> N" "zones_stop http N"
  shows "cloudflare_list_zones_loop http kwargs p zones log \<noteq> None"
  using assms
proof (induction "nat (N - p)" arbitrary: p kwargs zones log)
  case 0
  then have "p = N" by simp
  with 0 show ?case
    by (subst zones_loop_unfold) (auto simp: zones_stop_def split: sum.splits)
next
  case (Suc n)
  then have *: "n = nat (N - (p + 1))" "p + 1 \<le> N" by auto
  show ?case
    apply (subst zones_loop_unfold[OF Suc.prems(1)])
    using Suc.hyps(1)[OF *(1) _ *(2) Suc.prems(3)]
    apply (auto split: sum.splits)
    done
qed

lemma zones_loop_Some:
  assumes "cloudflare_list_zones_loop http kwargs p zones log = Some y" "kw_ok kwargs"
  shows "\<exists>N\<ge>p. zones_stop http N"
  using assms(2)
proof (induction rule: cloudflare_list_zones_loop.raw_induct[OF _ assms(1)])
  case (1 loop http kwargs p zones log y)
  show ?case
  proof (cases "zones_stop http p")
    case True
    then show ?thesis by auto
  next
    case False
    then obtain info rows where pg: "page_of http ''/zones'' p = Inr (info, rows)" "\<not> last_page info p"
      by (auto simp: zones_stop_def split: sum.splits)
    from 1(2) have "loop http (page_args p) (p + 1) (zones @ rows) (log @ [(''/zones'', page_args p)]) = Some y"
      using pg cloudflare_request_page[OF 1(3), of http "''/zones''" p log]
      by (auto simp: Let_def page_of_def split: option.splits if_splits)
    from 1(1)[OF this] obtain N where "N \<ge> p + 1" "zones_stop http N" by auto
    then show ?thesis by (intro exI[of _ N]) auto
  qed
qed

subsection \<open>The merge of raw rows\<close>

lemma sort_sort_append: "sort (sort xs @ ys) = sort (xs @ (ys :: 'a :: linorder list))"
  by (rule properties_for_sort) simp_all

lemma set_update_cases:
  "(a, b) \<in> set (AList.update k v al) \<Longrightarrow> (a, b) = (k, v) \<or> (a, b) \<in> set al"
  by (induction al) (auto split: if_splits)

lemma merge_row_inv:
  assumes "merge_row row records = Inr records1" "merged_inv records"
  shows "merged_inv records1"
proof -
  from assms(1) obtain name v where r1: "records1 = AList.update name v records"
      and v: "mr_name v = name" "sorted (mr_value v)"
    using assms(2)
    by (auto simp: merge_row_def merged_inv_def row_get_def
        split: sum.splits option.splits dest!: map_of_SomeD)
  show ?thesis
    using assms(2) v unfolding r1 merged_inv_def
    by (auto simp: distinct_update dest!: set_update_cases)
qed

lemma merge_rows_inv:
  "merge_rows rows records = Inr m \<Longrightarrow> merged_inv records \<Longrightarrow> merged_inv m"
  by (induction rows arbitrary: records) (auto split: sum.splits dest: merge_row_inv)

lemma merge_row_lookup:
  assumes "merge_row row records = Inr records1"
  shows "\<exists>name content. map_of row ''name'' = Some name \<and> map_of row ''content'' = Some content \<and>
     map_of records1 = (map_of records)(name \<mapsto>
       (case map_of records name of
          Some r \<Rightarrow> r\<lparr>mr_value := sort (mr_value r @ [content])\<rparr>
        | None \<Rightarrow> \<lparr>mr_name = name, mr_value = sort [content],
                   mr_type = (case map_of row ''type'' of None \<Rightarrow> [] | Some t \<Rightarrow> t)\<rparr>))"
  using assms
  by (auto simp: merge_row_def row_get_def update_conv split: sum.splits option.splits)

lemma merge_rows_lookup:
  assumes "merge_rows rows records = Inr m" "merged_inv records"
  shows "map_of m n =
     (case map_of records n of
        Some r \<Rightarrow> Some (r\<lparr>mr_value := sort (mr_value r @ contents_of n rows)\<rparr>)
      | None \<Rightarrow>
          if n \<in> set (row_names rows)
          then Some \<lparr>mr_name = n, mr_value = sort (contents_of n rows), mr_type = first_type n rows\<rparr>
          else None)"
  using assms
proof (induction rows arbitrary: records)
  case Nil
  then have "\<And>r. map_of records n = Some r \<Longrightarrow> sorted (mr_value r)"
    by (auto simp: merged_inv_def dest!: map_of_SomeD)
  with Nil show ?case
    by (auto simp: contents_of_def row_names_def sorted_sort_id split: option.splits)
next
  case (Cons row rows)
  then obtain records1 where r1: "merge_row row records = Inr records1"
      and rest: "merge_rows rows records1 = Inr m"
    by (auto split: sum.splits)
  have inv1: "merged_inv records1" using merge_row_inv[OF r1 Cons.prems(2)] .
  from merge_row_lookup[OF r1] obtain name content where
    nm: "map_of row ''name'' = Some name" and ct: "map_of row ''content'' = Some content" and
    upd: "map_of records1 = (map_of records)(name \<mapsto>
       (case map_of records name of
          Some r \<Rightarrow> r\<lparr>mr_value := sort (mr_value r @ [content])\<rparr>
        | None \<Rightarrow> \<lparr>mr_name = name, mr_value = sort [content],
                   mr_type = (case map_of row ''type'' of None \<Rightarrow> [] | Some t \<Rightarrow> t)\<rparr>))"
    by blast
  note IH = Cons.IH[OF rest inv1]
  show ?case
  proof (cases "n = name")
    case True
    show ?thesis
      unfolding IH using True nm ct
      by (auto simp: upd contents_of_def row_names_def first_type_def sort_sort_append
          split: option.splits)
  next
    case False
    show ?thesis
      unfolding IH using False nm ct
      by (auto simp: upd contents_of_def row_names_def first_type_def split: option.splits)
  qed
qed

lemma merge_rows_total:
  "list_all row_ok rows \<Longrightarrow> \<exists>m. merge_rows rows records = Inr m"
  by (induction rows arbitrary: records)
     (auto simp: merge_row_def row_ok_def row_get_def split: sum.splits option.splits)

lemma merge_rows_append:
  "merge_rows (xs @ ys) records =
     (case merge_rows xs records of Inl e \<Rightarrow> Inl e | Inr r \<Rightarrow> merge_rows ys r)"
  by (induction xs arbitrary: records) (auto split: sum.splits)

lemma filter_key_distinct:
  "distinct (map fst m) \<Longrightarrow> map_of m n = Some r \<Longrightarrow> filter (\<lambda>kv. fst kv = n) m = [(n, r)]"
proof (induction m)
  case Nil
  then show ?case by simp
next
  case (Cons a m)
  then show ?case
    by (cases a) (auto simp: filter_empty_conv rev_image_eqI split: if_splits dest!: map_of_SomeD)
qed

subsection \<open>Runs of the loops\<close>

lemma map_upt_Suc_shift: "map f [0..<Suc n] = f 0 # map (\<lambda>k. f (Suc k)) [0..<n]"
  by (simp add: upt_conv_Cons map_Suc_upt[symmetric] del: upt_Suc)

lemma zones_loop_run:
  assumes "kw_ok kwargs"
    and "\<forall>k<n. \<not> zones_stop http (p + int k)"
    and "page_of http ''/zones'' (p + int n) = Inr (info, rows)" "last_page info (p + int n)"
  shows "cloudflare_list_zones_loop http kwargs p zones log =
     Some (Inr (zones @ concat (map (\<lambda>k. page_rows http ''/zones'' (p + int k)) [0..<Suc n])),
           log @ map (\<lambda>k. (''/zones'', page_args (p + int k))) [0..<Suc n])"
  using assms
proof (induction n arbitrary: p kwargs zones log)
  case 0
  then show ?case
    by (subst zones_loop_unfold) (auto simp: page_rows_def)
next
  case (Suc n)
  from Suc.prems(2) have "\<not> zones_stop http p" by force
  then obtain info0 rows0 where p0: "page_of http ''/zones'' p = Inr (info0, rows0)" "\<not> last_page info0 p"
    by (auto simp: zones_stop_def split: sum.splits)
  have sh: "\<forall>k<n. \<not> zones_stop http (p + 1 + int k)"
  proof (intro allI impI)
    fix k assume "k < n"
    then have "\<not> zones_stop http (p + int (Suc k))" using Suc.prems(2) by blast
    then show "\<not> zones_stop http (p + 1 + int k)" by (simp add: add.assoc)
  qed
  have fin: "page_of http ''/zones'' (p + 1 + int n) = Inr (info, rows)" "last_page info (p + 1 + int n)"
    using Suc.prems(3,4) by (simp_all add: add.assoc)
  have IH: "cloudflare_list_zones_loop http (page_args p) (p + 1) (zones @ rows0) (log @ [(''/zones'', page_args p)]) =
     Some (Inr ((zones @ rows0) @ concat (map (\<lambda>k. page_rows http ''/zones'' (p + 1 + int k)) [0..<Suc n])),
           (log @ [(''/zones'', page_args p)]) @ map (\<lambda>k. (''/zones'', page_args (p + 1 + int k))) [0..<Suc n])"
    by (rule Suc.IH[OF _ sh fin]) simp
  show ?case
    apply (subst zones_loop_unfold[OF Suc.prems(1)])
    apply (subst map_upt_Suc_shift[of _ "Suc n"])
    apply (subst map_upt_Suc_shift[of _ "Suc n"])
    using p0 IH
    apply (simp add: page_rows_def add.assoc del: upt_Suc)
    done
qed

lemma records_loop_ends:
  assumes "kw_ok kwargs" "p \<le> N" "records_stop http zid N"
  shows "cloudflare_list_zone_records_loop http zid kwargs p records log \<noteq> None"
  using assms
proof (induction "nat (N - p)" arbitrary: p kwargs records log)
  case 0
  then have "p = N" by simp
  with 0 show ?case
    by (subst records_loop_unfold) (auto simp: records_stop_def split: sum.splits)
next
  case (Suc n)
  then have *: "n = nat (N - (p + 1))" "p + 1 \<le> N" by auto
  show ?case
    apply (subst records_loop_unfold[OF Suc.prems(1)])
    using Suc.hyps(1)[OF *(1) _ *(2) Suc.prems(3)]
    apply (auto split: sum.splits)
    done
qed

lemma records_loop_Some:
  assumes "cloudflare_list_zone_records_loop http zid kwargs p records log = Some y" "kw_ok kwargs"
    and "\<forall>k\<ge>p. list_all row_ok (page_rows http (records_path zid) k)"
  shows "\<exists>N\<ge>p. records_stop http zid N"
  using assms(2,3)
proof (induction rule: cloudflare_list_zone_records_loop.raw_induct[OF _ assms(1)])
  case (1 loop http zid kwargs p records log y)
  show ?case
  proof (cases "records_stop http zid p")
    case True
    then show ?thesis by auto
  next
    case False
    then obtain info rows where pg: "page_of http (records_path zid) p = Inr (info, rows)" "\<not> last_page info p"
      by (auto simp: records_stop_def split: sum.splits)
    have "list_all row_ok rows" using 1(4) pg by (auto simp: page_rows_def dest!: spec[of _ p])
    then obtain m where m: "merge_rows rows records = Inr m" using merge_rows_total by blast
    from 1(2) have "loop http zid (page_args p) (p + 1) m (log @ [(records_path zid, page_args p)]) = Some y"
      using pg m cloudflare_request_page[OF 1(3), of http "records_path zid" p log]
      by (auto simp: Let_def page_of_def split: option.splits if_splits)
    from 1(1)[OF this] 1(4) obtain N where "N \<ge> p + 1" "records_stop http zid N" by auto
    then show ?thesis by (intro exI[of _ N]) auto
  qed
qed

lemma records_loop_run:
  assumes "kw_ok kwargs"
    and "\<forall>k<n. \<not> records_stop http zid (p + int k)"
    and "page_of http (records_path zid) (p + int n) = Inr (info, rows)" "last_page info (p + int n)"
    and "merge_rows (concat (map (\<lambda>k. page_rows http (records_path zid) (p + int k)) [0..<Suc n])) records = Inr m"
  shows "cloudflare_list_zone_records_loop http zid kwargs p records log =
     Some (Inr (map snd m),
           log @ map (\<lambda>k. (records_path zid, page_args (p + int k))) [0..<Suc n])"
  using assms
proof (induction n arbitrary: p kwargs records log)
  case 0
  then show ?case
    by (subst records_loop_unfold) (auto simp: page_rows_def)
next
  case (Suc n)
  from Suc.prems(2) have "\<not> records_stop http zid p" by force
  then obtain info0 rows0 where p0: "page_of http (records_path zid) p = Inr (info0, rows0)" "\<not> last_page info0 p"
    by (auto simp: records_stop_def split: sum.splits)
  have sh: "\<forall>k<n. \<not> records_stop http zid (p + 1 + int k)"
  proof (intro allI impI)
    fix k assume "k < n"
    then have "\<not> records_stop http zid (p + int (Suc k))" using Suc.prems(2) by blast
    then show "\<not> records_stop http zid (p + 1 + int k)" by (simp add: add.assoc)
  qed
  have fin: "page_of http (records_path zid) (p + 1 + int n) = Inr (info, rows)" "last_page info (p + 1 + int n)"
    using Suc.prems(3,4) by (simp_all add: add.assoc)
  from Suc.prems(5) obtain r1 where r1: "merge_rows rows0 records = Inr r1"
     and rest: "merge_rows (concat (map (\<lambda>k. page_rows http (records_path zid) (p + 1 + int k)) [0..<Suc n])) r1 = Inr m"
    apply (subst (asm) map_upt_Suc_shift[of _ "Suc n"])
    using p0
    apply (auto simp: merge_rows_append page_rows_def add.assoc simp del: upt_Suc split: sum.splits)
    done
  have IH: "cloudflare_list_zone_records_loop http zid (page_args p) (p + 1) r1 (log @ [(records_path zid, page_args p)]) =
     Some (Inr (map snd m),
           (log @ [(records_path zid, page_args p)]) @ map (\<lambda>k. (records_path zid, page_args (p + 1 + int k))) [0..<Suc n])"
    by (rule Suc.IH[OF _ sh fin rest]) simp
  show ?case
    apply (subst records_loop_unfold[OF Suc.prems(1)])
    apply (subst map_upt_Suc_shift[of _ "Suc n"])
    using p0 IH r1
    apply (simp add: page_rows_def add.assoc del: upt_Suc)
    done
qed

lemma records_loop_result_aux:
  assumes "cloudflare_list_zone_records_loop http zid kwargs p records log = Some y"
    and "kw_ok kwargs"
  shows "\<forall>recs log'. y = (Inr recs, log') \<longrightarrow>
     (\<exists>n m. merge_rows (concat (map (\<lambda>k. page_rows http (records_path zid) (p + int k)) [0..<Suc n]))
             records = Inr m \<and> recs = map snd m \<and>
           log' = log @ map (\<lambda>k. (records_path zid, page_args (p + int k))) [0..<Suc n])"
  using assms(2)
proof (induction rule: cloudflare_list_zone_records_loop.raw_induct[OF _ assms(1)])
  case (1 loop http zid kwargs p records log y)
  let ?path = "records_path zid"
  let ?log1 = "log @ [(?path, page_args p)]"
  show ?case
  proof (intro allI impI)
    fix recs log' assume y: "y = (Inr recs, log')"
    from 1(2) obtain info rows r1 where pg: "page_of http ?path p = Inr (info, rows)"
      and r1: "merge_rows rows records = Inr r1"
      and cont: "if last_page info p then recs = map snd r1 \<and> log' = ?log1
                 else loop http zid (page_args p) (p + 1) r1 ?log1 = Some y"
      using cloudflare_request_page[OF 1(3), of http ?path p log] y
      by (auto simp: Let_def page_of_def split: option.splits if_splits sum.splits)
    show "\<exists>n m. merge_rows (concat (map (\<lambda>k. page_rows http ?path (p + int k)) [0..<Suc n]))
             records = Inr m \<and> recs = map snd m \<and>
           log' = log @ map (\<lambda>k. (?path, page_args (p + int k))) [0..<Suc n]"
    proof (cases "last_page info p")
      case True
      with cont pg r1 show ?thesis
        by (intro exI[of _ 0] exI[of _ r1]) (simp add: page_rows_def)
    next
      case False
      with cont have "loop http zid (page_args p) (p + 1) r1 ?log1 = Some y" by simp
      from 1(1)[OF this] y obtain n m where
        m: "merge_rows (concat (map (\<lambda>k. page_rows http ?path (p + 1 + int k)) [0..<Suc n])) r1 = Inr m"
        and res: "recs = map snd m"
          "log' = ?log1 @ map (\<lambda>k. (?path, page_args (p + 1 + int k))) [0..<Suc n]"
        by auto
      show ?thesis
        apply (intro exI[of _ "Suc n"] exI[of _ m])
        apply (subst map_upt_Suc_shift[of _ "Suc n"])
        apply (subst map_upt_Suc_shift[of _ "Suc n"])
        using pg r1 m res
        apply (simp add: merge_rows_append page_rows_def add.assoc del: upt_Suc)
        done
    qed
  qed
qed

lemma shift_pages: "map (\<lambda>k. f (1 + int k)) [0..<n] = map (\<lambda>k. f (int k)) [1..<Suc n]"
proof -
  have "map (\<lambda>k. f (int k)) [1..<Suc n] = map (\<lambda>k. f (int k)) (map Suc [0..<n])"
    by (simp only: map_Suc_upt One_nat_def)
  also have "\<dots> = map (\<lambda>k. f (1 + int k)) [0..<n]" by (simp add: comp_def add.commute)
  finally show ?thesis by simp
qed

lemma page_of_example [simp]:
  "http path (page_args p) = example_page tp rs \<Longrightarrow>
   page_of http path p = Inr ([(''total_pages'', tp)], rs)"
  by (simp add: page_of_def example_page_def)

subsection \<open>Claims about pagination\<close>

text \<open>
  Claim C7 (pagination exhaustion). When the answers to the requests for pages 1, 2 and 3
  report \<open>total_pages = 3\<close>, each listing helper issues exactly the three requests for the
  pages 1, 2, 3, in that order, and returns: for the zone listing, the results of the three
  pages concatenated; for the record listing, the values of the merge by name of the
  concatenated rows (provided every row has the keys the merge reads, that is, the merge
  of the rows raises nothing).
\<close>

theorem three_pages:
  assumes "\<forall>p\<in>{1, 2, 3}. \<exists>info. page_of http ''/zones'' p = Inr (info, zs p) \<and>
             map_of info ''total_pages'' = Some 3"
    and "\<forall>p\<in>{1, 2, 3}. \<exists>info. page_of http (records_path zid) p = Inr (info, rs p) \<and>
             map_of info ''total_pages'' = Some 3"
    and "merge_rows (rs 1 @ rs 2 @ rs 3) [] = Inr m"
  shows "cloudflare_list_zones http [] log =
           Some (Inr (zs 1 @ zs 2 @ zs 3),
                 log @ [(''/zones'', page_args 1), (''/zones'', page_args 2), (''/zones'', page_args 3)]) \<and>
         cloudflare_list_zone_records http zid [] log =
           Some (Inr (map snd m),
                 log @ [(records_path zid, page_args 1), (records_path zid, page_args 2),
                        (records_path zid, page_args 3)])"
proof
  from assms(1) obtain i1 i2 i3 where
    z: "page_of http ''/zones'' 1 = Inr (i1, zs 1)" "map_of i1 ''total_pages'' = Some 3"
       "page_of http ''/zones'' 2 = Inr (i2, zs 2)" "map_of i2 ''total_pages'' = Some 3"
       "page_of http ''/zones'' 3 = Inr (i3, zs 3)" "map_of i3 ''total_pages'' = Some 3"
    by auto
  have "\<forall>k<2. \<not> zones_stop http (1 + int k)"
    using z by (auto simp: zones_stop_def last_page_def less_Suc_eq numeral_2_eq_2)
  from zones_loop_run[OF _ this, of "[]" i3 "zs 3" "[]" log] z
  show "cloudflare_list_zones http [] log =
           Some (Inr (zs 1 @ zs 2 @ zs 3),
                 log @ [(''/zones'', page_args 1), (''/zones'', page_args 2), (''/zones'', page_args 3)])"
    by (simp add: cloudflare_list_zones_def last_page_def page_rows_def numeral_2_eq_2)
next
  let ?path = "records_path zid"
  from assms(2) obtain i1 i2 i3 where
    z: "page_of http ?path 1 = Inr (i1, rs 1)" "map_of i1 ''total_pages'' = Some 3"
       "page_of http ?path 2 = Inr (i2, rs 2)" "map_of i2 ''total_pages'' = Some 3"
       "page_of http ?path 3 = Inr (i3, rs 3)" "map_of i3 ''total_pages'' = Some 3"
    by auto
  have "\<forall>k<2. \<not> records_stop http zid (1 + int k)"
    using z by (auto simp: records_stop_def last_page_def less_Suc_eq numeral_2_eq_2)
  from records_loop_run[OF _ this, of "[]" i3 "rs 3" "[]" m log] z assms(3)
  show "cloudflare_list_zone_records http zid [] log =
           Some (Inr (map snd m),
                 log @ [(?path, page_args 1), (?path, page_args 2), (?path, page_args 3)])"
    by (simp add: cloudflare_list_zone_records_def last_page_def page_rows_def numeral_2_eq_2)
qed

lemma page_of_example_server [simp]:
  "page_of (example_server tp rs) path p = Inr ([(''total_pages'', tp)], rs p)"
  by (simp add: page_of_def example_server_def example_page_def page_args_def)

text \<open>
  Claim C10 (termination of the pagination loops). For a sequence of responses (every
  request is answered with status 200 and a body that has \<^verbatim>\<open>result_info\<close> and
  \<^verbatim>\<open>result\<close>, the record rows having the keys the merge reads), each loop terminates if and
  only if some page \<open>N \<ge> 1\<close> is final: its \<^verbatim>\<open>result_info\<close> lacks \<^verbatim>\<open>total_pages\<close> or
  reports \<open>total_pages = N\<close>. In particular, when every page reports a \<open>total_pages\<close> below
  its own number (such as 0), the loops never return.
\<close>

theorem pagination_terminates_iff:
  assumes "\<forall>p\<ge>1. \<exists>info rs. page_of http ''/zones'' p = Inr (info, rs)"
    and "\<forall>p\<ge>1. \<exists>info rs. page_of http (records_path zid) p = Inr (info, rs) \<and> list_all row_ok rs"
  shows "(cloudflare_list_zones http [] log \<noteq> None \<longleftrightarrow> (\<exists>N\<ge>1. final_page http ''/zones'' N)) \<and>
         (cloudflare_list_zone_records http zid [] log \<noteq> None \<longleftrightarrow>
            (\<exists>N\<ge>1. final_page http (records_path zid) N)) \<and>
         ((\<forall>p\<ge>1. \<exists>info rs t. page_of http ''/zones'' p = Inr (info, rs) \<and>
               map_of info ''total_pages'' = Some t \<and> t < p)
            \<longrightarrow> cloudflare_list_zones http [] log = None) \<and>
         ((\<forall>p\<ge>1. \<exists>info rs t. page_of http (records_path zid) p = Inr (info, rs) \<and>
               map_of info ''total_pages'' = Some t \<and> t < p)
            \<longrightarrow> cloudflare_list_zone_records http zid [] log = None)"
proof -
  have zs: "zones_stop http N \<longleftrightarrow> final_page http ''/zones'' N" if "N \<ge> 1" for N
    using assms(1) that by (auto simp: zones_stop_def final_page_def split: sum.splits)
  have rs: "records_stop http zid N \<longleftrightarrow> final_page http (records_path zid) N" if "N \<ge> 1" for N
    using assms(2) that by (auto simp: records_stop_def final_page_def split: sum.splits)
  have A: "cloudflare_list_zones http [] log \<noteq> None \<longleftrightarrow> (\<exists>N\<ge>1. final_page http ''/zones'' N)"
  proof
    assume "cloudflare_list_zones http [] log \<noteq> None"
    then obtain y where "cloudflare_list_zones_loop http [] 1 [] log = Some y"
      by (auto simp: cloudflare_list_zones_def)
    from zones_loop_Some[OF this] zs show "\<exists>N\<ge>1. final_page http ''/zones'' N" by auto
  next
    assume "\<exists>N\<ge>1. final_page http ''/zones'' N"
    then obtain N where "1 \<le> N" "zones_stop http N" using zs by auto
    then show "cloudflare_list_zones http [] log \<noteq> None"
      unfolding cloudflare_list_zones_def by (intro zones_loop_ends[of _ 1 N]) auto
  qed
  have ok: "\<forall>k\<ge>1. list_all row_ok (page_rows http (records_path zid) k)"
    using assms(2) by (fastforce simp: page_rows_def)
  have B: "cloudflare_list_zone_records http zid [] log \<noteq> None \<longleftrightarrow>
            (\<exists>N\<ge>1. final_page http (records_path zid) N)"
  proof
    assume "cloudflare_list_zone_records http zid [] log \<noteq> None"
    then obtain y where "cloudflare_list_zone_records_loop http zid [] 1 [] log = Some y"
      by (auto simp: cloudflare_list_zone_records_def)
    from records_loop_Some[OF this _ ok] rs show "\<exists>N\<ge>1. final_page http (records_path zid) N"
      by auto
  next
    assume "\<exists>N\<ge>1. final_page http (records_path zid) N"
    then obtain N where "1 \<le> N" "records_stop http zid N" using rs by auto
    then show "cloudflare_list_zone_records http zid [] log \<noteq> None"
      unfolding cloudflare_list_zone_records_def by (intro records_loop_ends[of _ 1 N]) auto
  qed
  have nf: "\<not> final_page http path N"
    if "\<forall>p\<ge>1. \<exists>info rs t. page_of http path p = Inr (info, rs) \<and>
               map_of info ''total_pages'' = Some t \<and> t < p" "N \<ge> 1" for path N
    using that by (fastforce simp: final_page_def last_page_def)
  show ?thesis
    using A B nf by blast
qed

text \<open>
  Instances: a server that always reports two pages is listed; one that always reports
  zero pages is requested forever.
\<close>

theorem pagination_terminates_iff_witness:
  "cloudflare_list_zones (example_server 2 example_rows) [] [] \<noteq> None \<and>
   cloudflare_list_zone_records (example_server 2 example_rows) ''z1'' [] [] \<noteq> None \<and>
   cloudflare_list_zones (example_server 0 example_rows) [] [] = None \<and>
   cloudflare_list_zone_records (example_server 0 example_rows) ''z1'' [] [] = None"
proof -
  have ok: "list_all row_ok (example_rows p)" for p
    by (simp add: example_rows_def example_row_def row_ok_def)
  have f2: "final_page (example_server 2 example_rows) path 2" for path
    by (simp add: final_page_def last_page_def)
  have "\<exists>N\<ge>1. final_page (example_server 2 example_rows) path N" for path
    using f2[of path] by (intro exI[of _ 2]) simp
  then show ?thesis
    using pagination_terminates_iff[of "example_server 2 example_rows" "''z1''" "[]"]
      pagination_terminates_iff[of "example_server 0 example_rows" "''z1''" "[]"] ok
    by simp
qed

text \<open>
  An instance: a server with three pages, two of which hold a row for the same name.
\<close>

theorem three_pages_witness:
  "cloudflare_list_zones (example_server 3 example_rows) [] [] =
     Some (Inr [example_row ''www.example.com'' ''A'' ''2.2.2.2'',
                example_row ''mail.example.com'' ''A'' ''3.3.3.3'',
                example_row ''www.example.com'' ''A'' ''1.1.1.1''],
           [(''/zones'', page_args 1), (''/zones'', page_args 2), (''/zones'', page_args 3)]) \<and>
   cloudflare_list_zone_records (example_server 3 example_rows) ''z1'' [] [] =
     Some (Inr [\<lparr>mr_name = ''www.example.com'', mr_value = [''1.1.1.1'', ''2.2.2.2''], mr_type = ''A''\<rparr>,
                \<lparr>mr_name = ''mail.example.com'', mr_value = [''3.3.3.3''], mr_type = ''A''\<rparr>],
           [(''/zones/z1/dns_records'', page_args 1), (''/zones/z1/dns_records'', page_args 2),
            (''/zones/z1/dns_records'', page_args 3)])"
proof -
  have m: "merge_rows (example_rows 1 @ example_rows 2 @ example_rows 3) [] =
     Inr [(''www.example.com'', \<lparr>mr_name = ''www.example.com'', mr_value = [''1.1.1.1'', ''2.2.2.2''], mr_type = ''A''\<rparr>),
          (''mail.example.com'', \<lparr>mr_name = ''mail.example.com'', mr_value = [''3.3.3.3''], mr_type = ''A''\<rparr>)]"
    by (simp add: example_rows_def example_row_def merge_row_def row_get_def)
  show ?thesis
    using three_pages[of "example_server 3 example_rows" example_rows "''z1''" example_rows _ "[]", OF _ _ m]
    by (simp add: example_rows_def records_path_def)
qed

subsection \<open>Claims about the merge\<close>

lemma records_run_merge:
  assumes "cloudflare_list_zone_records http zid [] log = Some (Inr recs, log')"
  shows "\<exists>n m. merge_rows (fetched_rows http (records_path zid) (Suc n)) [] = Inr m \<and>
           recs = map snd m \<and> log' = log @ page_requests (records_path zid) (Suc n)"
proof -
  from records_loop_result_aux[OF assms[unfolded cloudflare_list_zone_records_def]]
  obtain n m where
    "merge_rows (concat (map (\<lambda>k. page_rows http (records_path zid) (1 + int k)) [0..<Suc n])) [] = Inr m"
    "recs = map snd m"
    "log' = log @ map (\<lambda>k. (records_path zid, page_args (1 + int k))) [0..<Suc n]"
    by auto
  then show ?thesis
    unfolding fetched_rows_def page_requests_def
    using shift_pages[of "page_rows http (records_path zid)" "Suc n"]
      shift_pages[of "\<lambda>i. (records_path zid, page_args i)" "Suc n"]
    by (intro exI[of _ n] exI[of _ m]) simp
qed

lemma merged_names:
  assumes "merged_inv m"
  shows "map mr_name (map snd m) = map fst m"
  using assms by (auto simp: merged_inv_def)

lemma merged_filter_name:
  assumes "merged_inv m" "map_of m n = Some r"
  shows "filter (\<lambda>r. mr_name r = n) (map snd m) = [r]"
proof -
  have "filter (\<lambda>r. mr_name r = n) (map snd m) = map snd (filter (\<lambda>kv. fst kv = n) m)"
    using assms(1) by (auto simp: merged_inv_def filter_map comp_def intro!: arg_cong[where f="map snd"] filter_cong)
  also have "\<dots> = [r]" using filter_key_distinct[OF _ assms(2)] assms(1) by (simp add: merged_inv_def)
  finally show ?thesis .
qed

lemma merged_inv_Nil [simp]: "merged_inv []"
  by (simp add: merged_inv_def)

lemma listing_records_by_name:
  assumes "cloudflare_list_zone_records http zid [] log = Some (Inr recs, log')"
  shows "\<exists>n. log' = log @ page_requests (records_path zid) n \<and>
           distinct (map mr_name recs) \<and>
           set (map mr_name recs) = set (row_names (fetched_rows http (records_path zid) n)) \<and>
           (\<forall>name \<in> set (row_names (fetched_rows http (records_path zid) n)).
              filter (\<lambda>r. mr_name r = name) recs =
                [\<lparr>mr_name = name,
                  mr_value = sort (contents_of name (fetched_rows http (records_path zid) n)),
                  mr_type = first_type name (fetched_rows http (records_path zid) n)\<rparr>])"
proof -
  from records_run_merge[OF assms] obtain n m where
    m: "merge_rows (fetched_rows http (records_path zid) (Suc n)) [] = Inr m"
    and recs: "recs = map snd m" and log: "log' = log @ page_requests (records_path zid) (Suc n)"
    by blast
  let ?rows = "fetched_rows http (records_path zid) (Suc n)"
  have inv: "merged_inv m" using merge_rows_inv[OF m] by simp
  have look: "map_of m name =
      (if name \<in> set (row_names ?rows)
       then Some \<lparr>mr_name = name, mr_value = sort (contents_of name ?rows), mr_type = first_type name ?rows\<rparr>
       else None)" for name
    using merge_rows_lookup[OF m, of name] by simp
  have d: "distinct (map mr_name recs)"
    unfolding recs merged_names[OF inv] using inv by (simp add: merged_inv_def)
  have "set (map fst m) = set (row_names ?rows)"
  proof -
    have "name \<in> set (map fst m) \<longleftrightarrow> name \<in> set (row_names ?rows)" for name
      using look[of name] by (metis map_of_eq_None_iff option.distinct(1) set_map)
    then show ?thesis by blast
  qed
  then have s: "set (map mr_name recs) = set (row_names ?rows)"
    using merged_names[OF inv] by (simp add: recs)
  have f: "filter (\<lambda>r. mr_name r = name) recs =
                [\<lparr>mr_name = name, mr_value = sort (contents_of name ?rows), mr_type = first_type name ?rows\<rparr>]"
    if "name \<in> set (row_names ?rows)" for name
    using merged_filter_name[OF inv, of name] look[of name] that by (simp add: recs)
  show ?thesis
    using log d s f by (intro exI[of _ "Suc n"]) blast
qed

text \<open>
  Claim C3 (multi-value merge). When the record listing of a zone returns, having
  requested \<open>n\<close> pages, no two of the returned records share a name, their names are the
  names of the raw rows of those pages, and for every such name there is exactly one
  returned record with that name: its value is the sorted list of the \<^verbatim>\<open>content\<close> values of
  all the raw rows with the name, and its type is that of the first such row.
\<close>

theorem merged_one_record_per_name:
  assumes "cloudflare_list_zone_records http zid [] log = Some (Inr recs, log')"
  shows "\<exists>n. log' = log @ page_requests (records_path zid) n \<and>
           distinct (map mr_name recs) \<and>
           set (map mr_name recs) = set (row_names (fetched_rows http (records_path zid) n)) \<and>
           (\<forall>name \<in> set (row_names (fetched_rows http (records_path zid) n)).
              filter (\<lambda>r. mr_name r = name) recs =
                [\<lparr>mr_name = name,
                  mr_value = sort (contents_of name (fetched_rows http (records_path zid) n)),
                  mr_type = first_type name (fetched_rows http (records_path zid) n)\<rparr>])"
  using listing_records_by_name[OF assms] .

text \<open>
  An instance, the example of the claim: the rows of \<^verbatim>\<open>www.example.com\<close> with the values
  \<^verbatim>\<open>2.2.2.2\<close> (page 1) and \<^verbatim>\<open>1.1.1.1\<close> (page 3) give one record with the value list
  \<^verbatim>\<open>['1.1.1.1', '2.2.2.2']\<close>.
\<close>

theorem merged_one_record_per_name_witness:
  "cloudflare_list_zone_records (example_server 3 example_rows) ''z1'' [] [] =
     Some (Inr [\<lparr>mr_name = ''www.example.com'', mr_value = [''1.1.1.1'', ''2.2.2.2''], mr_type = ''A''\<rparr>,
                \<lparr>mr_name = ''mail.example.com'', mr_value = [''3.3.3.3''], mr_type = ''A''\<rparr>],
           page_requests (records_path ''z1'') 3) \<and>
   (\<exists>n. page_requests (records_path ''z1'') 3 = [] @ page_requests (records_path ''z1'') n \<and>
     filter (\<lambda>r. mr_name r = ''www.example.com'')
       [\<lparr>mr_name = ''www.example.com'', mr_value = [''1.1.1.1'', ''2.2.2.2''], mr_type = ''A''\<rparr>,
        \<lparr>mr_name = ''mail.example.com'', mr_value = [''3.3.3.3''], mr_type = ''A''\<rparr>] =
       [\<lparr>mr_name = ''www.example.com'',
         mr_value = sort (contents_of ''www.example.com''
                            (fetched_rows (example_server 3 example_rows) (records_path ''z1'') n)),
         mr_type = first_type ''www.example.com''
                     (fetched_rows (example_server 3 example_rows) (records_path ''z1'') n)\<rparr>])"
proof -
  let ?recs = "[\<lparr>mr_name = ''www.example.com'', mr_value = [''1.1.1.1'', ''2.2.2.2''], mr_type = ''A''\<rparr>,
                \<lparr>mr_name = ''mail.example.com'', mr_value = [''3.3.3.3''], mr_type = ''A''\<rparr>]"
  have m: "merge_rows (example_rows 1 @ example_rows 2 @ example_rows 3) [] =
     Inr [(''www.example.com'', \<lparr>mr_name = ''www.example.com'', mr_value = [''1.1.1.1'', ''2.2.2.2''], mr_type = ''A''\<rparr>),
          (''mail.example.com'', \<lparr>mr_name = ''mail.example.com'', mr_value = [''3.3.3.3''], mr_type = ''A''\<rparr>)]"
    by (simp add: example_rows_def example_row_def merge_row_def row_get_def)
  have "\<forall>k<2. \<not> records_stop (example_server 3 example_rows) ''z1'' (1 + int k)"
    by (auto simp: records_stop_def last_page_def)
  from records_loop_run[OF _ this, of "[]" _ _ "[]" _ "[]"] m
  have run: "cloudflare_list_zone_records (example_server 3 example_rows) ''z1'' [] [] =
     Some (Inr ?recs, page_requests (records_path ''z1'') 3)"
    by (simp add: cloudflare_list_zone_records_def last_page_def page_rows_def numeral_2_eq_2
        page_requests_def numeral_3_eq_3)
  from merged_one_record_per_name[OF run] obtain n where
    n: "page_requests (records_path ''z1'') 3 = [] @ page_requests (records_path ''z1'') n"
    and all: "\<forall>name \<in> set (row_names (fetched_rows (example_server 3 example_rows) (records_path ''z1'') n)).
              filter (\<lambda>r. mr_name r = name) ?recs =
                [\<lparr>mr_name = name,
                  mr_value = sort (contents_of name (fetched_rows (example_server 3 example_rows) (records_path ''z1'') n)),
                  mr_type = first_type name (fetched_rows (example_server 3 example_rows) (records_path ''z1'') n)\<rparr>]"
    and names: "set (map mr_name ?recs) = set (row_names (fetched_rows (example_server 3 example_rows) (records_path ''z1'') n))"
    by blast
  from names have "''www.example.com'' \<in> set (row_names (fetched_rows (example_server 3 example_rows) (records_path ''z1'') n))"
    by auto
  with all n run show ?thesis by blast
qed


section \<open>Properties of the snapshots\<close>

subsection \<open>Listings of a single page\<close>

lemma list_zones_single:
  assumes "final_page http ''/zones'' 1"
  shows "cloudflare_list_zones http [] log =
           Some (Inr (page_rows http ''/zones'' 1), log @ [(''/zones'', page_args 1)])"
  using assms unfolding cloudflare_list_zones_def
  by (subst zones_loop_unfold) (auto simp: final_page_def page_rows_def split: sum.splits)

lemma list_zone_records_single:
  assumes "final_page http (records_path zid) 1"
  shows "cloudflare_list_zone_records http zid [] log =
           Some (case merge_rows (page_rows http (records_path zid) 1) [] of
                   Inl e \<Rightarrow> Inl e
                 | Inr m \<Rightarrow> Inr (map snd m),
                 log @ [(records_path zid, page_args 1)])"
  using assms unfolding cloudflare_list_zone_records_def
  by (subst records_loop_unfold) (auto simp: final_page_def page_rows_def split: sum.splits)

subsection \<open>Where the zones of a snapshot come from\<close>

lemma cf_loop_zones:
  assumes "get_cloudflare_records_loop gid http zobjs acc log = Some (Inr zones, log')"
    and "z \<in> set zones"
  shows "z \<in> set acc \<or>
     (\<exists>zobj\<in>set zobjs. \<exists>name zid recs l1 l2.
         map_of zobj ''name'' = Some name \<and> map_of zobj ''id'' = Some zid \<and>
         cloudflare_list_zone_records http zid [] l1 = Some (Inr recs, l2) \<and> recs \<noteq> [] \<and>
         z = cloudflare_zone gid name zid recs)"
  using assms
proof (induction zobjs arbitrary: acc log)
  case Nil
  then show ?case by simp
next
  case (Cons zobj rest)
  from Cons.prems(1) obtain name zid where
    nm: "map_of zobj ''name'' = Some name" and zi: "map_of zobj ''id'' = Some zid"
    by (auto simp: row_get_def split: option.splits sum.splits)
  from Cons.prems(1) nm zi obtain res l1 where
    run: "cloudflare_list_zone_records http zid [] log = Some (res, l1)"
    by (auto simp: row_get_def split: option.splits)
  show ?case
  proof (cases res)
    case (Inl e)
    with Cons.prems(1) nm zi run obtain msg where e: "e = CloudFlareError msg"
      and rest: "get_cloudflare_records_loop gid http rest acc l1 = Some (Inr zones, log')"
      by (cases e) (auto simp: row_get_def)
    from Cons.IH[OF rest Cons.prems(2)] show ?thesis by auto
  next
    case (Inr recs)
    let ?zone = "cloudflare_zone gid name zid recs"
    let ?acc = "if recs \<noteq> [] then acc @ [?zone] else acc"
    have len: "length (zd_records ?zone) > 0 \<longleftrightarrow> recs \<noteq> []"
      by (simp add: cloudflare_zone_def)
    from Cons.prems(1) nm zi run Inr
    have rest: "get_cloudflare_records_loop gid http rest ?acc l1 = Some (Inr zones, log')"
      by (simp add: row_get_def Let_def len del: length_greater_0_conv)
    from Cons.IH[OF rest Cons.prems(2)]
    have "z \<in> set ?acc \<or>
      (\<exists>zobj\<in>set rest. \<exists>name zid recs l1 l2.
         map_of zobj ''name'' = Some name \<and> map_of zobj ''id'' = Some zid \<and>
         cloudflare_list_zone_records http zid [] l1 = Some (Inr recs, l2) \<and> recs \<noteq> [] \<and>
         z = cloudflare_zone gid name zid recs)" .
    then show ?thesis
    proof
      assume "z \<in> set ?acc"
      then have "z \<in> set acc \<or> (z = ?zone \<and> recs \<noteq> [])" by (auto split: if_splits)
      with nm zi run Inr show ?thesis by auto
    next
      assume "\<exists>zobj\<in>set rest. \<exists>name zid recs l1 l2.
         map_of zobj ''name'' = Some name \<and> map_of zobj ''id'' = Some zid \<and>
         cloudflare_list_zone_records http zid [] l1 = Some (Inr recs, l2) \<and> recs \<noteq> [] \<and>
         z = cloudflare_zone gid name zid recs"
      then show ?thesis by auto
    qed
  qed
qed

lemma cf_zones:
  assumes "get_cloudflare_records gid http log = Some (Inr zones, log')" "z \<in> set zones"
  shows "\<exists>zobjs l0 zobj name zid recs l1 l2.
         cloudflare_list_zones http [] log = Some (Inr zobjs, l0) \<and> zobj \<in> set zobjs \<and>
         map_of zobj ''name'' = Some name \<and> map_of zobj ''id'' = Some zid \<and>
         cloudflare_list_zone_records http zid [] l1 = Some (Inr recs, l2) \<and> recs \<noteq> [] \<and>
         z = cloudflare_zone gid name zid recs"
proof -
  from assms(1) obtain zobjs l0 where z: "cloudflare_list_zones http [] log = Some (Inr zobjs, l0)"
    and l: "get_cloudflare_records_loop gid http zobjs [] l0 = Some (Inr zones, log')"
    by (auto simp: get_cloudflare_records_def split: option.splits sum.splits)
  from cf_loop_zones[OF l assms(2)] z show ?thesis by fastforce
qed

subsection \<open>The requests of a run\<close>

text \<open>
  Every request is appended to the log, so the log of a run extends the log it started
  from, and the requests of the listing that gave a zone its records are a block of the
  log of the whole run.
\<close>

lemma records_loop_log:
  assumes "cloudflare_list_zone_records_loop http zid kwargs p records log = Some y"
  shows "\<exists>x. snd y = log @ x"
proof (induction rule: cloudflare_list_zone_records_loop.raw_induct[OF _ assms])
  case (1 loop http zid kwargs p records log y)
  have "\<exists>res kw2. cloudflare_request http (records_path zid) (AList.update ''page'' p kwargs) log =
       (res, kw2, log @ [(records_path zid, kw2)])"
    unfolding cloudflare_request_def Let_def by (simp split: if_splits)
  then obtain res kw2 where rq:
    "cloudflare_request http (records_path zid) (AList.update ''page'' p kwargs) log =
       (res, kw2, log @ [(records_path zid, kw2)])"
    by blast
  show ?case
  proof (cases "\<exists>r1. loop http zid kw2 (p + 1) r1 (log @ [(records_path zid, kw2)]) = Some y")
    case True
    then obtain r1 where "loop http zid kw2 (p + 1) r1 (log @ [(records_path zid, kw2)]) = Some y"
      by blast
    from 1(1)[OF this] show ?thesis by auto
  next
    case False
    with 1(2) rq show ?thesis
      by (auto simp: Let_def split: sum.splits option.splits if_splits)
  qed
qed

lemma list_zone_records_log:
  assumes "cloudflare_list_zone_records http zid kwargs log = Some (res, log')"
  shows "\<exists>x. log' = log @ x"
  using records_loop_log[OF assms[unfolded cloudflare_list_zone_records_def]] by simp

lemma cf_loop_log:
  assumes "get_cloudflare_records_loop gid http zobjs acc log = Some (res, log')"
  shows "\<exists>x. log' = log @ x"
  using assms
proof (induction zobjs arbitrary: acc log)
  case Nil
  then show ?case by simp
next
  case (Cons zobj rest)
  show ?case
  proof (cases "\<exists>name zid. row_get zobj ''name'' = Inr name \<and> row_get zobj ''id'' = Inr zid")
    case False
    with Cons.prems show ?thesis by (auto split: sum.splits)
  next
    case True
    then obtain name zid where nz: "row_get zobj ''name'' = Inr name" "row_get zobj ''id'' = Inr zid"
      by blast
    from Cons.prems nz obtain r1 l1 where
      run: "cloudflare_list_zone_records http zid [] log = Some (r1, l1)"
      by (auto split: option.splits)
    from list_zone_records_log[OF run] obtain x where x: "l1 = log @ x" by blast
    show ?thesis
    proof (cases "\<exists>acc'. get_cloudflare_records_loop gid http rest acc' l1 = Some (res, log')")
      case True
      then obtain acc' where "get_cloudflare_records_loop gid http rest acc' l1 = Some (res, log')"
        by blast
      from Cons.IH[OF this] x show ?thesis by auto
    next
      case False
      with Cons.prems nz run x show ?thesis
        by (auto simp: Let_def split: sum.splits error.splits if_splits)
    qed
  qed
qed

lemma cf_loop_zones_log:
  assumes "get_cloudflare_records_loop gid http zobjs acc log = Some (Inr zones, log')"
    and "z \<in> set zones"
  shows "z \<in> set acc \<or>
     (\<exists>zobj\<in>set zobjs. \<exists>name zid recs x l2 y.
         map_of zobj ''name'' = Some name \<and> map_of zobj ''id'' = Some zid \<and>
         cloudflare_list_zone_records http zid [] (log @ x) = Some (Inr recs, l2) \<and>
         log' = l2 @ y \<and> recs \<noteq> [] \<and>
         z = cloudflare_zone gid name zid recs)"
  using assms
proof (induction zobjs arbitrary: acc log)
  case Nil
  then show ?case by simp
next
  case (Cons zobj rest)
  from Cons.prems(1) obtain name zid where
    nm: "map_of zobj ''name'' = Some name" and zi: "map_of zobj ''id'' = Some zid"
    by (auto simp: row_get_def split: option.splits sum.splits)
  from Cons.prems(1) nm zi obtain res l1 where
    run: "cloudflare_list_zone_records http zid [] log = Some (res, l1)"
    by (auto simp: row_get_def split: option.splits)
  from list_zone_records_log[OF run] obtain x1 where x1: "l1 = log @ x1" by blast
  let ?P = "\<lambda>zobjs log. \<exists>zobj\<in>set zobjs. \<exists>name zid recs x l2 y.
         map_of zobj ''name'' = Some name \<and> map_of zobj ''id'' = Some zid \<and>
         cloudflare_list_zone_records http zid [] (log @ x) = Some (Inr recs, l2) \<and>
         log' = l2 @ y \<and> recs \<noteq> [] \<and>
         z = cloudflare_zone gid name zid recs"
  have later: "?P (zobj # rest) log" if "?P rest l1"
  proof -
    from that obtain zo name zid recs x l2 y where
      "zo \<in> set rest" "map_of zo ''name'' = Some name" "map_of zo ''id'' = Some zid"
      "cloudflare_list_zone_records http zid [] (l1 @ x) = Some (Inr recs, l2)"
      "log' = l2 @ y" "recs \<noteq> []" "z = cloudflare_zone gid name zid recs"
      by blast
    then show ?thesis
      unfolding x1
      by (intro bexI[of _ zo] exI[of _ name] exI[of _ zid] exI[of _ recs] exI[of _ "x1 @ x"]
          exI[of _ l2] exI[of _ y]) simp_all
  qed
  show ?case
  proof (cases res)
    case (Inl e)
    with Cons.prems(1) nm zi run obtain msg where e: "e = CloudFlareError msg"
      and rest: "get_cloudflare_records_loop gid http rest acc l1 = Some (Inr zones, log')"
      by (cases e) (auto simp: row_get_def)
    from Cons.IH[OF rest Cons.prems(2)] later show ?thesis by blast
  next
    case (Inr recs)
    let ?zone = "cloudflare_zone gid name zid recs"
    let ?acc = "if recs \<noteq> [] then acc @ [?zone] else acc"
    have len: "length (zd_records ?zone) > 0 \<longleftrightarrow> recs \<noteq> []"
      by (simp add: cloudflare_zone_def)
    from Cons.prems(1) nm zi run Inr
    have rest: "get_cloudflare_records_loop gid http rest ?acc l1 = Some (Inr zones, log')"
      by (simp add: row_get_def Let_def len del: length_greater_0_conv)
    from cf_loop_log[OF rest] obtain y1 where y1: "log' = l1 @ y1" by blast
    from Cons.IH[OF rest Cons.prems(2)] have "z \<in> set ?acc \<or> ?P rest l1" .
    then show ?thesis
    proof
      assume "z \<in> set ?acc"
      then consider "z \<in> set acc" | "z = ?zone" "recs \<noteq> []" by (auto split: if_splits)
      then show ?thesis
      proof cases
        case 1
        then show ?thesis by simp
      next
        case 2
        have "?P (zobj # rest) log"
          using nm zi run Inr y1 2
          by (intro bexI[of _ zobj] exI[of _ name] exI[of _ zid] exI[of _ recs] exI[of _ "[]"]
              exI[of _ l1] exI[of _ y1]) simp_all
        then show ?thesis by blast
      qed
    next
      assume "?P rest l1"
      from later[OF this] show ?thesis by blast
    qed
  qed
qed

lemma cf_zones_log:
  assumes "get_cloudflare_records gid http log = Some (Inr zones, log')" "z \<in> set zones"
  shows "\<exists>zobjs l0 zobj name zid recs x l2 y.
         cloudflare_list_zones http [] log = Some (Inr zobjs, l0) \<and> zobj \<in> set zobjs \<and>
         map_of zobj ''name'' = Some name \<and> map_of zobj ''id'' = Some zid \<and>
         cloudflare_list_zone_records http zid [] (l0 @ x) = Some (Inr recs, l2) \<and>
         log' = l2 @ y \<and> recs \<noteq> [] \<and>
         z = cloudflare_zone gid name zid recs"
proof -
  from assms(1) obtain zobjs l0 where z: "cloudflare_list_zones http [] log = Some (Inr zobjs, l0)"
    and l: "get_cloudflare_records_loop gid http zobjs [] l0 = Some (Inr zones, log')"
    by (auto simp: get_cloudflare_records_def split: option.splits sum.splits)
  from cf_loop_zones_log[OF l assms(2)] z show ?thesis by fastforce
qed

lemma axfr_loop_zones:
  assumes "get_axfr_records_loop gid xfr server domains acc = Inr zones" "z \<in> set zones"
  shows "z \<in> set acc \<or>
     (\<exists>d\<in>set domains. \<exists>rrs. xfr server d = Inr rrs \<and> rrs \<noteq> [] \<and> z = axfr_zone gid d rrs)"
  using assms
proof (induction domains arbitrary: acc)
  case Nil
  then show ?case by simp
next
  case (Cons d rest)
  from Cons.prems(1) obtain rrs where x: "xfr server d = Inr rrs"
    and rest: "get_axfr_records_loop gid xfr server rest
        (if length (zd_records (axfr_zone gid d rrs)) > 0 then acc @ [axfr_zone gid d rrs] else acc) = Inr zones"
    by (auto simp: Let_def split: sum.splits)
  have "length (zd_records (axfr_zone gid d rrs)) > 0 \<longleftrightarrow> rrs \<noteq> []"
    by (simp add: axfr_zone_def)
  with Cons.IH[OF rest Cons.prems(2)] x show ?case
    by (auto split: if_splits)
qed

lemma retry_attempt:
  "retry n f = Inr x \<Longrightarrow> \<exists>i\<le>n. f i = Inr x"
proof (induction n arbitrary: f)
  case 0
  then show ?case by simp
next
  case (Suc n)
  show ?case
  proof (cases "f 0")
    case (Inr y)
    with Suc.prems show ?thesis by auto
  next
    case (Inl e)
    with Suc.prems have "retry n (\<lambda>i. f (Suc i)) = Inr x" by simp
    from Suc.IH[OF this] obtain i where "i \<le> n" "f (Suc i) = Inr x" by auto
    then show ?thesis by (intro exI[of _ "Suc i"]) simp
  qed
qed

lemma axfr_zones:
  assumes "get_axfr_records gid xfrs server domains retries = Inr zones" "z \<in> set zones"
  shows "\<exists>i\<le>retries. \<exists>d\<in>set domains. \<exists>rrs.
           xfrs i server d = Inr rrs \<and> rrs \<noteq> [] \<and> z = axfr_zone gid d rrs"
proof -
  from retry_attempt[OF assms(1)[unfolded get_axfr_records_def]] obtain i where
    "i \<le> retries" "get_axfr_records_loop gid (xfrs i) server domains [] = Inr zones" by auto
  with axfr_loop_zones[OF this(2) assms(2)] show ?thesis by auto
qed

subsection \<open>Claims about the snapshots\<close>

text \<open>
  Claim C8 (empty-zone suppression). Every zone of the list returned by
  \<^verbatim>\<open>get_cloudflare_records\<close> or by \<^verbatim>\<open>get_axfr_records\<close> has a non-empty records list: a
  fetched zone is appended only when it has a record (lemmas \<open>cf_zones\<close> and
  \<open>axfr_zones\<close>: every returned zone is built from a listing or a transfer that gave at
  least one record).
\<close>

theorem snapshot_zones_nonempty:
  "(get_cloudflare_records gid http log = Some (Inr zones, log') \<longrightarrow>
      (\<forall>z \<in> set zones. zd_records z \<noteq> [])) \<and>
   (get_axfr_records gid xfrs server domains retries = Inr zones' \<longrightarrow>
      (\<forall>z \<in> set zones'. zd_records z \<noteq> []))"
proof (intro conjI impI ballI)
  fix z assume "get_cloudflare_records gid http log = Some (Inr zones, log')" "z \<in> set zones"
  from cf_zones[OF this] show "zd_records z \<noteq> []" by (auto simp: cloudflare_zone_def)
next
  fix z assume "get_axfr_records gid xfrs server domains retries = Inr zones'" "z \<in> set zones'"
  from axfr_zones[OF this] show "zd_records z \<noteq> []" by (auto simp: axfr_zone_def)
qed


subsection \<open>The example API\<close>

lemma page_of_example_api [simp]:
  "page_of (example_api rs) ''/zones'' p =
     Inr ([(''total_pages'', 1)], [[(''id'', ''z1''), (''name'', ''example.com'')],
                                   [(''id'', ''z2''), (''name'', ''example.org'')]])"
  "page_of (example_api rs) ''/zones/z1/dns_records'' p = Inr ([(''total_pages'', 1)], rs)"
  "page_of (example_api rs) ''/zones/z2/dns_records'' p = Inr ([(''total_pages'', 1)], [])"
  by (simp_all add: page_of_def example_api_def example_page_def)

lemma example_api_run:
  assumes "merge_rows rs [] = Inr m"
  shows "get_cloudflare_records gid (example_api rs) [] =
     Some (Inr (if m = [] then [] else [cloudflare_zone gid ''example.com'' ''z1'' (map snd m)]),
           [(''/zones'', page_args 1), (''/zones/z1/dns_records'', page_args 1),
            (''/zones/z2/dns_records'', page_args 1)])"
proof -
  have f: "final_page (example_api rs) ''/zones'' 1"
    "final_page (example_api rs) (records_path ''z1'') 1"
    "final_page (example_api rs) (records_path ''z2'') 1"
    by (simp_all add: final_page_def last_page_def records_path_def)
  show ?thesis
    using assms
    by (simp add: get_cloudflare_records_def list_zones_single[OF f(1)]
        list_zone_records_single[OF f(2)] list_zone_records_single[OF f(3)]
        page_rows_def row_get_def records_path_def cloudflare_zone_def Let_def)
qed

lemma example_merge_two:
  "merge_rows [example_row ''www.example.com'' ''A'' ''2.2.2.2'',
               example_row ''www.example.com'' ''A'' ''1.1.1.1''] [] =
     Inr [(''www.example.com'',
           \<lparr>mr_name = ''www.example.com'', mr_value = [''1.1.1.1'', ''2.2.2.2''], mr_type = ''A''\<rparr>)]"
  by (simp add: example_row_def merge_row_def row_get_def)

lemma example_merge_one:
  "merge_rows [example_row ''www.example.com'' ''A'' ''2.2.2.2''] [] =
     Inr [(''www.example.com'',
           \<lparr>mr_name = ''www.example.com'', mr_value = [''2.2.2.2''], mr_type = ''A''\<rparr>)]"
  by (simp add: example_row_def merge_row_def row_get_def)

text \<open>
  An instance of claim C8: of two CloudFlare zones, and of two transferred zones, the one
  without records is left out.
\<close>

theorem snapshot_zones_nonempty_witness:
  "get_cloudflare_records example_resource_id
      (example_api [example_row ''www.example.com'' ''A'' ''2.2.2.2'',
                    example_row ''www.example.com'' ''A'' ''1.1.1.1'']) [] =
     Some (Inr [cloudflare_zone example_resource_id ''example.com'' ''z1''
                  [\<lparr>mr_name = ''www.example.com'', mr_value = [''1.1.1.1'', ''2.2.2.2''],
                    mr_type = ''A''\<rparr>]],
           [(''/zones'', page_args 1), (''/zones/z1/dns_records'', page_args 1),
            (''/zones/z2/dns_records'', page_args 1)]) \<and>
   zd_records (cloudflare_zone example_resource_id ''example.com'' ''z1''
                  [\<lparr>mr_name = ''www.example.com'', mr_value = [''1.1.1.1'', ''2.2.2.2''],
                    mr_type = ''A''\<rparr>]) \<noteq> [] \<and>
   get_axfr_records example_resource_id (\<lambda>i. example_xfr) ''ns1'' [''example.com'', ''example.org''] 2 =
     Inr [axfr_zone example_resource_id ''example.com''
            [\<lparr>rr_name = ''www'', rr_fqdn = ''www.example.com.'', rr_ttl = 300,
              rr_rdata = ''1.1.1.1'', rr_rdtype = ''A''\<rparr>]] \<and>
   zd_records (axfr_zone example_resource_id ''example.com''
            [\<lparr>rr_name = ''www'', rr_fqdn = ''www.example.com.'', rr_ttl = 300,
              rr_rdata = ''1.1.1.1'', rr_rdtype = ''A''\<rparr>]) \<noteq> []"
proof -
  have cf: "get_cloudflare_records example_resource_id
      (example_api [example_row ''www.example.com'' ''A'' ''2.2.2.2'',
                    example_row ''www.example.com'' ''A'' ''1.1.1.1'']) [] =
     Some (Inr [cloudflare_zone example_resource_id ''example.com'' ''z1''
                  [\<lparr>mr_name = ''www.example.com'', mr_value = [''1.1.1.1'', ''2.2.2.2''],
                    mr_type = ''A''\<rparr>]],
           [(''/zones'', page_args 1), (''/zones/z1/dns_records'', page_args 1),
            (''/zones/z2/dns_records'', page_args 1)])"
    by (simp add: example_api_run[OF example_merge_two])
  have ax: "get_axfr_records example_resource_id (\<lambda>i. example_xfr) ''ns1'' [''example.com'', ''example.org''] 2 =
     Inr [axfr_zone example_resource_id ''example.com''
            [\<lparr>rr_name = ''www'', rr_fqdn = ''www.example.com.'', rr_ttl = 300,
              rr_rdata = ''1.1.1.1'', rr_rdtype = ''A''\<rparr>]]"
    by (simp add: get_axfr_records_def example_xfr_def numeral_2_eq_2 axfr_zone_def Let_def)
  from snapshot_zones_nonempty[of example_resource_id
      "example_api [example_row ''www.example.com'' ''A'' ''2.2.2.2'',
                    example_row ''www.example.com'' ''A'' ''1.1.1.1'']" "[]" _ _
      "\<lambda>i. example_xfr" "''ns1''" "[''example.com'', ''example.org'']" 2] cf ax
  show ?thesis by simp
qed


text \<open>
  The rendering of a value that holds a character Python does not print: the escape
  character between the letters a and b is written as a backslash, the letter x and 1b.
\<close>

lemma record_items_escape:
  "record_items \<lparr>mr_name = ''t.example.com'', mr_value = [[CHR ''a'', CHR 0x1B, CHR ''b'']],
                 mr_type = ''TXT''\<rparr> =
     [''name=t.example.com'',
      ''value=['' @ [CHR 0x27, CHR ''a'', CHR 0x5C, CHR ''x'', CHR ''1'', CHR ''b'', CHR ''b'', CHR 0x27] @ '']'',
      ''type=TXT'']"
  by (simp add: record_items_def fmt_kv_def str_list_def repr_str_def repr_char_def printable_def
      hex_digit_def Let_def)

text \<open>
  Claim C2, as amended. The id of every record emitted by \<^verbatim>\<open>get_cloudflare_records\<close> is the
  identity function applied to \<^verbatim>\<open>'cfr'\<close>, the native id of the zone, and the
  \<^verbatim>\<open>key=value\<close> rendering of the merged record: its name, the text Python gives the sorted
  list of the \<^verbatim>\<open>content\<close> values of all the raw rows with that name, and the type of the
  first such row. The rows are those of the \<open>n\<close> pages that the listing of the records of
  that zone requested during the run. So the id depends on every raw row merged for the
  name.
\<close>

theorem cloudflare_record_id:
  assumes "get_cloudflare_records gid http log = Some (Inr zones, log')"
    and "z \<in> set zones" and "r \<in> set (zd_records z)"
  shows "\<exists>zobjs l0 zobj zid recs n x y.
           cloudflare_list_zones http [] log = Some (Inr zobjs, l0) \<and> zobj \<in> set zobjs \<and>
           map_of zobj ''name'' = Some (zd_name z) \<and> map_of zobj ''id'' = Some zid \<and>
           cloudflare_list_zone_records http zid [] (l0 @ x) =
             Some (Inr recs, l0 @ x @ page_requests (records_path zid) n) \<and>
           log' = l0 @ x @ page_requests (records_path zid) n @ y \<and>
           zd_records z = map (cloudflare_record gid zid (zd_zone_id z)) recs \<and>
           rd_name r \<in> set (row_names (fetched_rows http (records_path zid) n)) \<and>
           rd_id r = gid ''cfr''
             [S zid,
              L [fmt_kv ''name'' (rd_name r),
                 fmt_kv ''value''
                   (str_list (sort (contents_of (rd_name r) (fetched_rows http (records_path zid) n)))),
                 fmt_kv ''type'' (first_type (rd_name r) (fetched_rows http (records_path zid) n))]]"
proof -
  from cf_zones_log[OF assms(1,2)] obtain zobjs l0 zobj name zid recs x l2 y where
    z: "cloudflare_list_zones http [] log = Some (Inr zobjs, l0)" "zobj \<in> set zobjs"
       "map_of zobj ''name'' = Some name" "map_of zobj ''id'' = Some zid"
    and run: "cloudflare_list_zone_records http zid [] (l0 @ x) = Some (Inr recs, l2)"
    and l2: "log' = l2 @ y"
    and zdef: "z = cloudflare_zone gid name zid recs"
    by blast
  from assms(3) zdef obtain m where m: "m \<in> set recs"
    and r: "r = cloudflare_record gid zid (gid ''cfz'' [S name]) m"
    by (auto simp: cloudflare_zone_def)
  from listing_records_by_name[OF run] obtain n where
    lg: "l2 = (l0 @ x) @ page_requests (records_path zid) n"
    and names: "set (map mr_name recs) = set (row_names (fetched_rows http (records_path zid) n))"
    and one: "\<forall>name \<in> set (row_names (fetched_rows http (records_path zid) n)).
              filter (\<lambda>r. mr_name r = name) recs =
                [\<lparr>mr_name = name,
                  mr_value = sort (contents_of name (fetched_rows http (records_path zid) n)),
                  mr_type = first_type name (fetched_rows http (records_path zid) n)\<rparr>]"
    by blast
  let ?rows = "fetched_rows http (records_path zid) n"
  from m names have in_names: "mr_name m \<in> set (row_names ?rows)" by force
  with one have "filter (\<lambda>r. mr_name r = mr_name m) recs =
      [\<lparr>mr_name = mr_name m, mr_value = sort (contents_of (mr_name m) ?rows),
        mr_type = first_type (mr_name m) ?rows\<rparr>]" by blast
  moreover have "m \<in> set (filter (\<lambda>r. mr_name r = mr_name m) recs)" using m by simp
  ultimately have meq: "m = \<lparr>mr_name = mr_name m, mr_value = sort (contents_of (mr_name m) ?rows),
        mr_type = first_type (mr_name m) ?rows\<rparr>" by simp
  have nm: "rd_name r = mr_name m" by (simp add: r cloudflare_record_def)
  have "rd_id r = gid ''cfr'' [S zid, L (record_items m)]" by (simp add: r cloudflare_record_def)
  also have "record_items m =
      [fmt_kv ''name'' (mr_name m), fmt_kv ''value'' (str_list (sort (contents_of (mr_name m) ?rows))),
       fmt_kv ''type'' (first_type (mr_name m) ?rows)]"
    by (subst meq) (simp add: record_items_def)
  finally have id: "rd_id r = gid ''cfr''
             [S zid,
              L [fmt_kv ''name'' (rd_name r),
                 fmt_kv ''value'' (str_list (sort (contents_of (rd_name r) ?rows))),
                 fmt_kv ''type'' (first_type (rd_name r) ?rows)]]"
    by (simp add: nm)
  have zn: "zd_name z = name" by (simp add: zdef cloudflare_zone_def)
  have zr: "zd_records z = map (cloudflare_record gid zid (zd_zone_id z)) recs"
    by (simp add: zdef cloudflare_zone_def)
  have run': "cloudflare_list_zone_records http zid [] (l0 @ x) =
             Some (Inr recs, l0 @ x @ page_requests (records_path zid) n)"
    using run lg by simp
  have lg': "log' = l0 @ x @ page_requests (records_path zid) n @ y"
    using l2 lg by simp
  show ?thesis
    using z(1,2,4) z(3)[folded zn] run' lg' zr in_names[folded nm] id
    by (intro exI[of _ zobjs] exI[of _ l0] exI[of _ zobj] exI[of _ zid] exI[of _ recs]
        exI[of _ n] exI[of _ x] exI[of _ y] conjI)
qed

text \<open>
  Claim C2 as stated fails: with an identity function that keeps its arguments apart, the
  id of the record merged from two rows is not the identity of the rendering of the first
  raw row, and it differs from the id the first row alone would give.
\<close>

theorem cloudflare_record_id_counterexample:
  "get_cloudflare_records example_resource_id
      (example_api [example_row ''www.example.com'' ''A'' ''2.2.2.2'',
                    example_row ''www.example.com'' ''A'' ''1.1.1.1'']) [] =
     Some (Inr [\<lparr>zd_zone_id = ''cfz|example.com'', zd_name = ''example.com'',
                 zd_source = ''CloudFlare'', zd_comment = None, zd_tags = [],
                 zd_records =
                   [\<lparr>rd_id = ''cfr|z1|name=www.example.com|value=['1.1.1.1', '2.2.2.2']|type=A'',
                     rd_zone_id = ''cfz|example.com'', rd_name = ''www.example.com'',
                     rd_value = [''1.1.1.1'', ''2.2.2.2''], rd_type = ''A''\<rparr>]\<rparr>],
           [(''/zones'', page_args 1), (''/zones/z1/dns_records'', page_args 1),
            (''/zones/z2/dns_records'', page_args 1)]) \<and>
   example_resource_id ''cfr''
      [S ''z1'', L (row_items (example_row ''www.example.com'' ''A'' ''2.2.2.2''))] =
     ''cfr|z1|id=2.2.2.2|type=A|name=www.example.com|content=2.2.2.2'' \<and>
   ''cfr|z1|name=www.example.com|value=['1.1.1.1', '2.2.2.2']|type=A'' \<noteq>
     ''cfr|z1|id=2.2.2.2|type=A|name=www.example.com|content=2.2.2.2'' \<and>
   get_cloudflare_records example_resource_id
      (example_api [example_row ''www.example.com'' ''A'' ''2.2.2.2'']) [] =
     Some (Inr [\<lparr>zd_zone_id = ''cfz|example.com'', zd_name = ''example.com'',
                 zd_source = ''CloudFlare'', zd_comment = None, zd_tags = [],
                 zd_records =
                   [\<lparr>rd_id = ''cfr|z1|name=www.example.com|value=['2.2.2.2']|type=A'',
                     rd_zone_id = ''cfz|example.com'', rd_name = ''www.example.com'',
                     rd_value = [''2.2.2.2''], rd_type = ''A''\<rparr>]\<rparr>],
           [(''/zones'', page_args 1), (''/zones/z1/dns_records'', page_args 1),
            (''/zones/z2/dns_records'', page_args 1)])"
proof -
  have r2: "get_cloudflare_records example_resource_id
      (example_api [example_row ''www.example.com'' ''A'' ''2.2.2.2'',
                    example_row ''www.example.com'' ''A'' ''1.1.1.1'']) [] =
     Some (Inr [cloudflare_zone example_resource_id ''example.com'' ''z1''
                  [\<lparr>mr_name = ''www.example.com'', mr_value = [''1.1.1.1'', ''2.2.2.2''],
                    mr_type = ''A''\<rparr>]],
           [(''/zones'', page_args 1), (''/zones/z1/dns_records'', page_args 1),
            (''/zones/z2/dns_records'', page_args 1)])"
    by (simp add: example_api_run[OF example_merge_two])
  have r1: "get_cloudflare_records example_resource_id
      (example_api [example_row ''www.example.com'' ''A'' ''2.2.2.2'']) [] =
     Some (Inr [cloudflare_zone example_resource_id ''example.com'' ''z1''
                  [\<lparr>mr_name = ''www.example.com'', mr_value = [''2.2.2.2''], mr_type = ''A''\<rparr>]],
           [(''/zones'', page_args 1), (''/zones/z1/dns_records'', page_args 1),
            (''/zones/z2/dns_records'', page_args 1)])"
    by (simp add: example_api_run[OF example_merge_one])
  show ?thesis
    unfolding r1 r2
    by (simp add: cloudflare_zone_def cloudflare_record_def record_items_def example_resource_id_def
        fmt_kv_def str_list_def repr_str_def repr_char_def printable_def Let_def row_items_def
        example_row_def)
qed

text \<open>An instance of the amended claim C2.\<close>

theorem cloudflare_record_id_witness:
  "\<exists>zobjs l0 zobj zid recs n x y.
     cloudflare_list_zones
       (example_api [example_row ''www.example.com'' ''A'' ''2.2.2.2'',
                     example_row ''www.example.com'' ''A'' ''1.1.1.1'']) [] [] = Some (Inr zobjs, l0) \<and>
     zobj \<in> set zobjs \<and>
     map_of zobj ''name'' = Some ''example.com'' \<and> map_of zobj ''id'' = Some zid \<and>
     cloudflare_list_zone_records
       (example_api [example_row ''www.example.com'' ''A'' ''2.2.2.2'',
                     example_row ''www.example.com'' ''A'' ''1.1.1.1'']) zid [] (l0 @ x) =
       Some (Inr recs, l0 @ x @ page_requests (records_path zid) n) \<and>
     [(''/zones'', page_args 1), (''/zones/z1/dns_records'', page_args 1),
      (''/zones/z2/dns_records'', page_args 1)] = l0 @ x @ page_requests (records_path zid) n @ y \<and>
     map (cloudflare_record example_resource_id ''z1'' (example_resource_id ''cfz'' [S ''example.com'']))
       [\<lparr>mr_name = ''www.example.com'', mr_value = [''1.1.1.1'', ''2.2.2.2''], mr_type = ''A''\<rparr>] =
       map (cloudflare_record example_resource_id zid (example_resource_id ''cfz'' [S ''example.com'']))
         recs \<and>
     ''www.example.com'' \<in> set (row_names (fetched_rows
        (example_api [example_row ''www.example.com'' ''A'' ''2.2.2.2'',
                      example_row ''www.example.com'' ''A'' ''1.1.1.1'']) (records_path zid) n)) \<and>
     example_resource_id ''cfr''
       [S ''z1'', L (record_items \<lparr>mr_name = ''www.example.com'',
                                  mr_value = [''1.1.1.1'', ''2.2.2.2''], mr_type = ''A''\<rparr>)] =
     example_resource_id ''cfr''
       [S zid,
        L [fmt_kv ''name'' ''www.example.com'',
           fmt_kv ''value''
             (str_list (sort (contents_of ''www.example.com'' (fetched_rows
                (example_api [example_row ''www.example.com'' ''A'' ''2.2.2.2'',
                              example_row ''www.example.com'' ''A'' ''1.1.1.1'']) (records_path zid) n)))),
           fmt_kv ''type'' (first_type ''www.example.com'' (fetched_rows
                (example_api [example_row ''www.example.com'' ''A'' ''2.2.2.2'',
                              example_row ''www.example.com'' ''A'' ''1.1.1.1'']) (records_path zid) n))]]"
proof -
  let ?api = "example_api [example_row ''www.example.com'' ''A'' ''2.2.2.2'',
                           example_row ''www.example.com'' ''A'' ''1.1.1.1'']"
  let ?m = "\<lparr>mr_name = ''www.example.com'', mr_value = [''1.1.1.1'', ''2.2.2.2''], mr_type = ''A''\<rparr>"
  let ?z = "cloudflare_zone example_resource_id ''example.com'' ''z1'' [?m]"
  let ?r = "cloudflare_record example_resource_id ''z1'' (example_resource_id ''cfz'' [S ''example.com'']) ?m"
  have run: "get_cloudflare_records example_resource_id ?api [] =
     Some (Inr [?z],
           [(''/zones'', page_args 1), (''/zones/z1/dns_records'', page_args 1),
            (''/zones/z2/dns_records'', page_args 1)])"
    by (simp add: example_api_run[OF example_merge_two])
  have "?z \<in> set [?z]" "?r \<in> set (zd_records ?z)"
    by (simp_all add: cloudflare_zone_def)
  from cloudflare_record_id[OF run this]
  show ?thesis
    by (simp add: cloudflare_zone_def cloudflare_record_def)
qed

section \<open>Properties of the reconciliation\<close>

subsection \<open>Tables\<close>

lemma set_table_rows: "set (table_rows t) = {(k, r). map_of t k = Some r}"
  unfolding table_rows_def graph_map_of[symmetric] by (auto simp: Map.graph_def)

lemma distinct_table_rows [simp]: "distinct (map fst (table_rows t))"
  by (simp add: table_rows_def)

lemma map_of_table_rows [simp]: "map_of (table_rows t) = map_of t"
  by (simp add: table_rows_def map_of_clearjunk)

lemma map_of_filter_distinct:
  "distinct (map fst al) \<Longrightarrow>
   map_of (filter P al) k =
     (case map_of al k of None \<Rightarrow> None | Some v \<Rightarrow> if P (k, v) then Some v else None)"
proof (induction al)
  case Nil
  then show ?case by simp
next
  case (Cons a al)
  obtain k' v' where a: "a = (k', v')" by (cases a)
  from Cons.prems have "k' \<notin> fst ` set al" by (simp add: a)
  then have none: "map_of al k' = None" by (simp add: map_of_eq_None_iff)
  have none': "map_of (filter P al) k' = None"
    using \<open>k' \<notin> fst ` set al\<close> by (auto simp: map_of_eq_None_iff)
  show ?case
    using Cons a none none' by (auto split: option.splits)
qed

lemma map_of_zone_records:
  "map_of (zone_records t zid) k =
     (case map_of (record_tbl t) k of
        None \<Rightarrow> None
      | Some r \<Rightarrow> if res_parent r = Some zid then Some r else None)"
  unfolding zone_records_def by (subst map_of_filter_distinct) (auto split: option.splits)

lemma keys_zone_records: "set (map fst (zone_records t zid)) = children t zid"
  by (simp add: children_def)

lemma children_rows:
  "children t zid = {k. \<exists>r. map_of (record_tbl t) k = Some r \<and> res_parent r = Some zid}"
  unfolding zone_records_def children_def by (auto simp: set_table_rows image_iff)

lemma distinct_zone_records [simp]: "distinct (map fst (zone_records t zid))"
  unfolding zone_records_def by (simp add: distinct_map_filter)

lemma keys_get_all:
  "set (map fst (get_all acct t)) =
     {k. \<exists>r. map_of (zone_tbl t) k = Some r \<and> res_account r = account_id acct}"
  unfolding get_all_def by (auto simp: set_table_rows image_iff)

lemma distinct_get_all [simp]: "distinct (map fst (get_all acct t))"
  unfolding get_all_def by (simp add: distinct_map_filter)

subsection \<open>Updates of properties\<close>

lemma update_props_unchanged:
  "\<not> fst (update_props new old) \<longleftrightarrow> (\<forall>(k, v) \<in> set new. map_of old k = Some v)"
  by (induction new old rule: update_props.induct) auto

lemma update_props_same: "\<not> fst (update_props new old) \<Longrightarrow> snd (update_props new old) = old"
  by (induction new old rule: update_props.induct) (auto split: if_splits)

lemma update_props_self: "distinct (map fst ps) \<Longrightarrow> \<not> fst (update_props ps ps)"
  unfolding update_props_unchanged by (auto simp: map_of_eq_Some_iff)

lemma map_of_update_props:
  "distinct (map fst new) \<Longrightarrow> (k, v) \<in> set new \<Longrightarrow> map_of (snd (update_props new old)) k = Some v"
proof (induction new old rule: update_props.induct)
  case (1 old)
  then show ?case by simp
next
  case (2 k' v' new old)
  show ?case
  proof (cases "k = k'")
    case True
    with 2 have v: "v = v'" by (auto simp: image_iff)
    have keep: "k' \<notin> fst ` set new \<Longrightarrow> map_of (snd (update_props new old')) k' = map_of old' k'" for old'
      by (induction new old' rule: update_props.induct) (auto simp: update_conv')
    from 2 have "k' \<notin> fst ` set new" by simp
    with True v show ?thesis by (auto simp: keep update_conv')
  next
    case False
    with 2 show ?thesis by auto
  qed
qed

lemma update_props_idem:
  "distinct (map fst new) \<Longrightarrow> \<not> fst (update_props new (snd (update_props new old)))"
  unfolding update_props_unchanged by (auto simp: map_of_update_props)

lemma distinct_zone_props [simp]: "distinct (map fst (zone_props d))"
  by (simp add: zone_props_def)

lemma distinct_record_props [simp]: "distinct (map fst (record_props d))"
  by (simp add: record_props_def)

lemma zone_update_idem: "\<not> fst (zone_update (snd (zone_update r d)) d)"
  by (simp add: zone_update_def update_props_idem case_prod_beta)

lemma zone_update_account [simp]: "res_account (snd (zone_update r d)) = res_account r"
  by (simp add: zone_update_def case_prod_beta)

lemma zone_update_same: "\<not> fst (zone_update r d) \<Longrightarrow> snd (zone_update r d) = r"
  using update_props_same[of "zone_props d" "res_props r"]
  by (auto simp: zone_update_def case_prod_beta)

lemma zone_update_created:
  "\<not> fst (zone_update \<lparr>res_account = a, res_props = zone_props d, res_tags = zd_tags d,
                        res_parent = p\<rparr> d)"
  using update_props_self[of "zone_props d"] by (simp add: zone_update_def case_prod_beta)

lemma record_update_created:
  "\<not> fst (record_update \<lparr>res_account = a, res_props = record_props d, res_tags = ts,
                          res_parent = p\<rparr> d)"
  using update_props_self[of "record_props d"] by (simp add: record_update_def case_prod_beta)

subsection \<open>Primitive operations\<close>

lemma put_record_simps [simp]:
  "stored (put_record k r st) = stored st"
  "writes (put_record k r st) = writes st"
  "commit_faults (put_record k r st) = commit_faults st"
  "failures (put_record k r st) = failures st"
  "zone_tbl (session (put_record k r st)) = zone_tbl (session st)"
  "map_of (record_tbl (session (put_record k r st))) = (map_of (record_tbl (session st)))(k \<mapsto> r)"
  by (simp_all add: put_record_def update_conv')

lemma put_zone_simps [simp]:
  "stored (put_zone k r st) = stored st"
  "writes (put_zone k r st) = writes st"
  "commit_faults (put_zone k r st) = commit_faults st"
  "failures (put_zone k r st) = failures st"
  "record_tbl (session (put_zone k r st)) = record_tbl (session st)"
  "map_of (zone_tbl (session (put_zone k r st))) = (map_of (zone_tbl (session st)))(k \<mapsto> r)"
  by (simp_all add: put_zone_def update_conv')

lemma issue_simps [simp]:
  "stored (issue w st) = stored st"
  "session (issue w st) = session st"
  "writes (issue w st) = writes st @ [w]"
  "commit_faults (issue w st) = commit_faults st"
  "failures (issue w st) = failures st"
  by (simp_all add: issue_def)

lemma delete_record_simps [simp]:
  "stored (delete_record st k) = stored st"
  "writes (delete_record st k) = writes st @ [Delete k]"
  "commit_faults (delete_record st k) = commit_faults st"
  "failures (delete_record st k) = failures st"
  "zone_tbl (session (delete_record st k)) = zone_tbl (session st)"
  "map_of (record_tbl (session (delete_record st k))) = (map_of (record_tbl (session st)))(k := None)"
  by (simp_all add: delete_record_def delete_conv')

lemma delete_zone_simps [simp]:
  "stored (delete_zone st k) = stored st"
  "writes (delete_zone st k) = writes st @ [Delete k]"
  "commit_faults (delete_zone st k) = commit_faults st"
  "failures (delete_zone st k) = failures st"
  "record_tbl (session (delete_zone st k)) = record_tbl (session st)"
  "map_of (zone_tbl (session (delete_zone st k))) = (map_of (zone_tbl (session st)))(k := None)"
  by (simp_all add: delete_zone_def delete_conv')

lemma delete_records_simps [simp]:
  "stored (foldl delete_record st ks) = stored st"
  "writes (foldl delete_record st ks) = writes st @ map Delete ks"
  "commit_faults (foldl delete_record st ks) = commit_faults st"
  "failures (foldl delete_record st ks) = failures st"
  "zone_tbl (session (foldl delete_record st ks)) = zone_tbl (session st)"
  by (induction ks arbitrary: st) simp_all

lemma delete_records_lookup:
  "map_of (record_tbl (session (foldl delete_record st ks))) k =
     (if k \<in> set ks then None else map_of (record_tbl (session st)) k)"
  by (induction ks arbitrary: st) auto

lemma commit_cases:
  obtains (ok) st1 where "commit st = (Inr (), st1)" "stored st1 = session st" "session st1 = session st"
      "writes st1 = writes st" "failures st1 = failures st"
  | (fail) st1 where "commit st = (Inl DatabaseError, st1)" "stored st1 = stored st" "session st1 = session st"
      "writes st1 = writes st" "failures st1 = failures st"
  by (cases "commit_faults st"; cases "hd (commit_faults st)")
     (auto simp: commit_def split: list.splits bool.splits)

lemma commit_ok:
  assumes "commit st = (Inr u, st1)"
  shows "stored st1 = session st" "session st1 = session st" "writes st1 = writes st"
    "failures st1 = failures st"
  using assms by (auto simp: commit_def split: list.splits bool.splits)

lemma commit_fail:
  assumes "commit st = (Inl e, st1)"
  shows "stored st1 = stored st" "session st1 = session st" "writes st1 = writes st"
    "failures st1 = failures st" "e = DatabaseError"
  using assms by (auto simp: commit_def split: list.splits bool.splits)

lemma rollback_simps [simp]:
  "stored (rollback st) = stored st"
  "session (rollback st) = stored st"
  "writes (rollback st) = writes st"
  "failures (rollback st) = failures st"
  by (simp_all add: rollback_def)

lemma create_Inr:
  "create k a ps ts t = Inr (r, t1) \<longleftrightarrow>
     map_of t k = None \<and> r = \<lparr>res_account = a, res_props = ps, res_tags = ts, res_parent = None\<rparr> \<and>
     t1 = AList.update k r t"
  by (auto simp: create_def Let_def)

lemma create_Inl: "create k a ps ts t = Inl e \<longleftrightarrow> map_of t k \<noteq> None \<and> e = IntegrityError k"
  by (auto simp: create_def Let_def)

subsection \<open>The loop over the records of the snapshot\<close>

lemma update_records_frame:
  assumes "update_records acct zone E ds st = (res, st1)"
  shows "stored st1 = stored st \<and> commit_faults st1 = commit_faults st \<and> failures st1 = failures st \<and>
         zone_tbl (session st1) = zone_tbl (session st)"
  using assms
proof (induction ds arbitrary: st)
  case Nil
  then show ?case by auto
next
  case (Cons d ds)
  show ?case
  proof (cases "map_of E (rd_id d)")
    case (Some r)
    with Cons show ?thesis
      by (auto simp: case_prod_beta Let_def split: if_splits)
  next
    case None
    with Cons.prems show ?thesis
      by (auto simp: create_Inr split: sum.splits dest!: Cons.IH)
  qed
qed

lemma update_records_ok:
  assumes "update_records acct zone E ds st = (Inr u, st1)"
  shows "(\<forall>k. map_of (record_tbl (session st1)) k = map_of (record_tbl (session st)) k \<or>
            (map_of (record_tbl (session st)) k = None \<and> map_of E k = None \<and>
             (\<exists>d \<in> set ds. rd_id d = k \<and>
                 map_of (record_tbl (session st1)) k = Some (new_record acct zone d)))) \<and>
         (\<forall>d \<in> set ds.
            case map_of E (rd_id d) of
              Some r \<Rightarrow> \<not> fst (record_update r d)
            | None \<Rightarrow> map_of (record_tbl (session st1)) (rd_id d) = Some (new_record acct zone d)) \<and>
         writes st1 = writes st @ map Create (filter (\<lambda>k. map_of E k = None) (map rd_id ds))"
  using assms
proof (induction ds arbitrary: st)
  case Nil
  then show ?case by auto
next
  case (Cons d ds)
  show ?case
  proof (cases "map_of E (rd_id d)")
    case (Some r)
    with Cons.prems have nc: "\<not> fst (record_update r d)"
      and rest: "update_records acct zone E ds st = (Inr u, st1)"
      by (auto simp: case_prod_beta Let_def split: if_splits)
    from Cons.IH[OF rest] Some nc show ?thesis by auto
  next
    case None
    let ?R = "record_tbl (session st)"
    let ?r = "\<lparr>res_account = account_id acct, res_props = record_props d, res_tags = [],
               res_parent = None\<rparr>"
    let ?st = "put_record (rd_id d) (?r\<lparr>res_parent := Some (zd_zone_id zone)\<rparr>)
                 (issue (Create (rd_id d))
                    (st\<lparr>session := (session st)\<lparr>record_tbl := AList.update (rd_id d) ?r ?R\<rparr>\<rparr>))"
    from Cons.prems None have fresh: "map_of ?R (rd_id d) = None"
      and rest: "update_records acct zone E ds ?st = (Inr u, st1)"
      by (auto simp: create_Inr split: sum.splits)
    have mid: "map_of (record_tbl (session ?st)) = (map_of ?R)(rd_id d \<mapsto> new_record acct zone d)"
      by (simp add: update_conv' new_record_def)
    have w: "writes ?st = writes st @ [Create (rd_id d)]" by simp
    note IH = Cons.IH[OF rest, unfolded mid w]
    from IH have A: "\<forall>k. map_of (record_tbl (session st1)) k = ((map_of ?R)(rd_id d \<mapsto> new_record acct zone d)) k \<or>
            (((map_of ?R)(rd_id d \<mapsto> new_record acct zone d)) k = None \<and> map_of E k = None \<and>
             (\<exists>d \<in> set ds. rd_id d = k \<and>
                 map_of (record_tbl (session st1)) k = Some (new_record acct zone d)))"
      by blast
    have keep: "map_of (record_tbl (session st1)) (rd_id d) = Some (new_record acct zone d)"
      using A[rule_format, of "rd_id d"] by auto
    have 1: "map_of (record_tbl (session st1)) k = map_of ?R k \<or>
            (map_of ?R k = None \<and> map_of E k = None \<and>
             (\<exists>d' \<in> set (d # ds). rd_id d' = k \<and>
                 map_of (record_tbl (session st1)) k = Some (new_record acct zone d')))" for k
    proof (cases "k = rd_id d")
      case True
      with fresh None keep show ?thesis by auto
    next
      case False
      with A[rule_format, of k] show ?thesis by auto
    qed
    have 2: "\<forall>d' \<in> set (d # ds).
            case map_of E (rd_id d') of
              Some r \<Rightarrow> \<not> fst (record_update r d')
            | None \<Rightarrow> map_of (record_tbl (session st1)) (rd_id d') = Some (new_record acct zone d')"
      using IH None keep by auto
    have 3: "writes st1 = writes st @ map Create (filter (\<lambda>k. map_of E k = None) (map rd_id (d # ds)))"
      using IH None by simp
    show ?thesis using 1 2 3 by blast
  qed
qed

lemma update_records_noop:
  assumes "\<forall>d \<in> set ds. \<exists>r. map_of E (rd_id d) = Some r \<and> \<not> fst (record_update r d)"
  shows "update_records acct zone E ds st = (Inr (), st)"
  using assms by (induction ds) (auto simp: case_prod_beta)

subsection \<open>The two stages of a record pass\<close>

lemma record_upserts_fail:
  assumes "record_upserts acct z st = (Inl e, st1)"
  shows "stored st1 = stored st \<and> failures st1 = failures st"
proof (cases "get_zone (session st) (zd_zone_id z)")
  case None
  with assms show ?thesis by (simp add: record_upserts_def)
next
  case (Some ez)
  obtain res st2 where ur: "update_records acct z (zone_records (session st) (zd_zone_id z)) (zd_records z) st = (res, st2)"
    by (cases "update_records acct z (zone_records (session st) (zd_zone_id z)) (zd_records z) st")
  note fr = update_records_frame[OF ur]
  show ?thesis
  proof (cases res)
    case (Inl e')
    with assms Some ur fr show ?thesis by (simp add: record_upserts_def Let_def)
  next
    case (Inr u)
    with assms Some ur obtain "commit st2 = (Inl e, st1)"
      by (auto simp: record_upserts_def Let_def split: prod.splits sum.splits)
    from commit_fail[OF this] fr show ?thesis by simp
  qed
qed

lemma record_upserts_ok:
  assumes "record_upserts acct z st = (Inr E, st1)"
  shows "E = zone_records (session st) (zd_zone_id z)"
    and "get_zone (session st) (zd_zone_id z) \<noteq> None"
    and "stored st1 = session st1"
    and "failures st1 = failures st"
    and "zone_tbl (session st1) = zone_tbl (session st)"
    and "\<And>k. map_of (record_tbl (session st1)) k = map_of (record_tbl (session st)) k \<or>
            (map_of (record_tbl (session st)) k = None \<and> map_of E k = None \<and>
             (\<exists>d \<in> set (zd_records z). rd_id d = k \<and>
                 map_of (record_tbl (session st1)) k = Some (new_record acct z d)))"
    and "\<And>d. d \<in> set (zd_records z) \<Longrightarrow>
            (case map_of E (rd_id d) of
              Some r \<Rightarrow> \<not> fst (record_update r d)
            | None \<Rightarrow> map_of (record_tbl (session st1)) (rd_id d) = Some (new_record acct z d))"
    and "writes st1 = writes st @ map Create (filter (\<lambda>k. map_of E k = None) (map rd_id (zd_records z)))"
proof -
  let ?E = "zone_records (session st) (zd_zone_id z)"
  from assms obtain ez where ez: "get_zone (session st) (zd_zone_id z) = Some ez"
    by (auto simp: record_upserts_def split: option.splits)
  obtain res st2 where ur: "update_records acct z ?E (zd_records z) st = (res, st2)"
    by (cases "update_records acct z ?E (zd_records z) st")
  from assms ez ur obtain u where res: "res = Inr u" and c: "commit st2 = (Inr (), st1)" and E: "E = ?E"
    by (auto simp: record_upserts_def Let_def split: prod.splits sum.splits)
  note ok = update_records_ok[OF ur[unfolded res]]
  note fr = update_records_frame[OF ur]
  note co = commit_ok[OF c]
  show "E = ?E" by (rule E)
  show "get_zone (session st) (zd_zone_id z) \<noteq> None" using ez by simp
  show "stored st1 = session st1" using co by simp
  show "failures st1 = failures st" using co fr by simp
  show "zone_tbl (session st1) = zone_tbl (session st)" using co fr by simp
  show "map_of (record_tbl (session st1)) k = map_of (record_tbl (session st)) k \<or>
            (map_of (record_tbl (session st)) k = None \<and> map_of E k = None \<and>
             (\<exists>d \<in> set (zd_records z). rd_id d = k \<and>
                 map_of (record_tbl (session st1)) k = Some (new_record acct z d)))" for k
    using ok[THEN conjunct1, rule_format, of k] unfolding co(2) E .
  show "case map_of E (rd_id d) of
              Some r \<Rightarrow> \<not> fst (record_update r d)
            | None \<Rightarrow> map_of (record_tbl (session st1)) (rd_id d) = Some (new_record acct z d)"
    if "d \<in> set (zd_records z)" for d
    using ok[THEN conjunct2, THEN conjunct1, rule_format, OF that] unfolding co(2) E .
  show "writes st1 = writes st @ map Create (filter (\<lambda>k. map_of E k = None) (map rd_id (zd_records z)))"
    using ok co unfolding E by simp
qed

lemma record_deletes_ok:
  assumes "record_deletes z E st = (Inr u, st1)"
  shows "stored st1 = session st1"
    and "failures st1 = failures st"
    and "zone_tbl (session st1) = zone_tbl (session st)"
    and "\<And>k. map_of (record_tbl (session st1)) k =
            (if k \<in> fst ` set E \<and> k \<notin> rd_id ` set (zd_records z) then None
             else map_of (record_tbl (session st)) k)"
    and "writes st1 = writes st @ map Delete (filter (\<lambda>k. k \<notin> set (map rd_id (zd_records z))) (map fst E))"
  using commit_ok[OF assms[unfolded record_deletes_def]]
  by (auto simp: delete_records_lookup)

lemma record_deletes_fail:
  assumes "record_deletes z E st = (Inl e, st1)"
  shows "stored st1 = stored st \<and> failures st1 = failures st"
  using commit_fail[OF assms[unfolded record_deletes_def]] by simp

subsection \<open>A record pass and what it leaves\<close>

lemma record_phase_clean [simp]: "session (record_phase acct st z) = stored (record_phase acct st z)"
proof (cases "record_pass acct z st")
  case (Pair res st1)
  show ?thesis
  proof (cases res)
    case (Inl e)
    with Pair show ?thesis by (simp add: record_phase_def)
  next
    case (Inr u)
    with Pair obtain E st0 where "record_deletes z E st0 = (Inr u, st1)"
      by (auto simp: record_pass_def split: prod.splits sum.splits)
    from record_deletes_ok(1)[OF this] Pair Inr show ?thesis by (simp add: record_phase_def)
  qed
qed

text \<open>The three ways a pass can end.\<close>

lemma record_phase_cases:
  obtains (early) e st1 where "record_upserts acct z st = (Inl e, st1)"
      "record_phase acct st z = rollback (st1\<lparr>failures := failures st1 @ [(zd_zone_id z, e)]\<rparr>)"
  | (late) E st1 e st2 where "record_upserts acct z st = (Inr E, st1)"
      "record_deletes z E st1 = (Inl e, st2)"
      "record_phase acct st z = rollback (st2\<lparr>failures := failures st2 @ [(zd_zone_id z, e)]\<rparr>)"
  | (complete) E st1 u st2 where "record_upserts acct z st = (Inr E, st1)"
      "record_deletes z E st1 = (Inr u, st2)"
      "record_phase acct st z = st2"
proof (cases "record_upserts acct z st")
  case (Pair res st1)
  show ?thesis
  proof (cases res)
    case (Inl e)
    with Pair show ?thesis by (intro early[of e st1]) (simp_all add: record_phase_def record_pass_def)
  next
    case (Inr E)
    show ?thesis
    proof (cases "record_deletes z E st1")
      case (Pair res2 st2)
      show ?thesis
      proof (cases res2)
        case (Inl e)
        with Pair \<open>record_upserts acct z st = (res, st1)\<close> Inr show ?thesis
          by (intro late[of E st1 e st2]) (simp_all add: record_phase_def record_pass_def)
      next
        case (Inr u)
        with Pair \<open>record_upserts acct z st = (res, st1)\<close> \<open>res = Inr E\<close> show ?thesis
          by (intro complete[of E st1 u st2]) (simp_all add: record_phase_def record_pass_def)
      qed
    qed
  qed
qed

lemma record_phase_zone_tbl:
  assumes "session st = stored st"
  shows "zone_tbl (stored (record_phase acct st z)) = zone_tbl (stored st)"
proof (cases rule: record_phase_cases[of acct z st])
  case (early e st1)
  with record_upserts_fail[OF early(1)] show ?thesis by simp
next
  case (late E st1 e st2)
  from record_upserts_ok(3,5)[OF late(1)] record_deletes_fail[OF late(2)] late(3) assms
  show ?thesis by simp
next
  case (complete E st1 u st2)
  from record_upserts_ok(3,5)[OF complete(1)] record_deletes_ok(1,3)[OF complete(2)] complete(3) assms
  show ?thesis by simp
qed

lemma record_phase_failures:
  "failures (record_phase acct st z) = failures st \<and> (\<exists>u st1. record_pass acct z st = (Inr u, st1)) \<or>
   (\<exists>e. failures (record_phase acct st z) = failures st @ [(zd_zone_id z, e)] \<and>
        (\<exists>st1. record_pass acct z st = (Inl e, st1)))"
proof (cases rule: record_phase_cases[of acct z st])
  case (early e st1)
  with record_upserts_fail[OF early(1)] show ?thesis by (simp add: record_pass_def)
next
  case (late E st1 e st2)
  from record_upserts_ok(4)[OF late(1)] record_deletes_fail[OF late(2)] late
  show ?thesis by (simp add: record_pass_def)
next
  case (complete E st1 u st2)
  from record_upserts_ok(4)[OF complete(1)] record_deletes_ok(2)[OF complete(2)] complete
  show ?thesis by (simp add: record_pass_def)
qed

lemma record_phase_foreign:
  assumes "session st = stored st"
    and "(\<exists>r. map_of (record_tbl (stored st)) k = Some r \<and> res_parent r \<noteq> Some (zd_zone_id z)) \<or>
         (\<exists>r. map_of (record_tbl (stored (record_phase acct st z))) k = Some r \<and>
              res_parent r \<noteq> Some (zd_zone_id z))"
  shows "map_of (record_tbl (stored (record_phase acct st z))) k = map_of (record_tbl (stored st)) k"
proof (cases rule: record_phase_cases[of acct z st])
  case (early e st1)
  with record_upserts_fail[OF early(1)] show ?thesis by simp
next
  case (late E st1 e st2)
  note up = record_upserts_ok[OF late(1)]
  have st: "stored (record_phase acct st z) = session st1"
    using record_deletes_fail[OF late(2)] late(3) up(3) by simp
  from up(6)[of k] have "map_of (record_tbl (session st1)) k = map_of (record_tbl (session st)) k \<or>
     (map_of (record_tbl (session st)) k = None \<and>
       (\<exists>d. map_of (record_tbl (session st1)) k = Some (new_record acct z d)))" by blast
  with assms show ?thesis unfolding st by (auto simp: new_record_def)
next
  case (complete E st1 u st2)
  note up = record_upserts_ok[OF complete(1)]
  note de = record_deletes_ok[OF complete(2)]
  have st: "stored (record_phase acct st z) = session st2" using complete(3) de(1) by simp
  have E: "k \<in> fst ` set E \<longleftrightarrow> (\<exists>r. map_of (record_tbl (stored st)) k = Some r \<and> res_parent r = Some (zd_zone_id z))"
    using up(1) assms(1) keys_zone_records[of "session st" "zd_zone_id z"] by (auto simp: children_rows)
  from up(6)[of k] have 1: "map_of (record_tbl (session st1)) k = map_of (record_tbl (session st)) k \<or>
     (map_of (record_tbl (session st)) k = None \<and>
       (\<exists>d. map_of (record_tbl (session st1)) k = Some (new_record acct z d)))" by blast
  note 2 = de(4)[of k]
  show ?thesis
    using assms 1 2 E unfolding st
    by (auto simp: new_record_def split: if_splits)
qed

lemma record_pass_synced:
  assumes "session st = stored st" "record_pass acct z st = (Inr u, st2)"
  shows "records_synced (stored st2) z"
proof -
  from assms(2) obtain E st1 where up0: "record_upserts acct z st = (Inr E, st1)"
    and de0: "record_deletes z E st1 = (Inr u, st2)"
    by (auto simp: record_pass_def split: prod.splits sum.splits)
  note up = record_upserts_ok[OF up0]
  note de = record_deletes_ok[OF de0]
  let ?zid = "zd_zone_id z"
  let ?R = "record_tbl (session st)" and ?R1 = "record_tbl (session st1)" and ?R2 = "record_tbl (stored st2)"
  have Ek: "map_of E k = (case map_of ?R k of None \<Rightarrow> None
                          | Some r \<Rightarrow> if res_parent r = Some ?zid then Some r else None)" for k
    unfolding up(1) by (simp add: map_of_zone_records)
  have Ekeys: "k \<in> fst ` set E \<longleftrightarrow> map_of E k \<noteq> None" for k
    by (simp add: map_of_eq_None_iff)
  have R1: "map_of ?R1 k = map_of ?R k \<or>
            (map_of ?R k = None \<and> map_of E k = None \<and>
             (\<exists>d \<in> set (zd_records z). rd_id d = k \<and> map_of ?R1 k = Some (new_record acct z d)))" for k
    using up(6)[of k] .
  have R2: "map_of ?R2 k = (if map_of E k \<noteq> None \<and> k \<notin> rd_id ` set (zd_records z) then None
             else map_of ?R1 k)" for k
    using de(4)[of k] de(1) Ekeys[of k] by simp
  have D: "case map_of E (rd_id d) of
              Some r \<Rightarrow> \<not> fst (record_update r d)
            | None \<Rightarrow> map_of ?R1 (rd_id d) = Some (new_record acct z d)" if "d \<in> set (zd_records z)" for d
    using up(7)[OF that] .
  have row: "case map_of ?R2 (rd_id d) of None \<Rightarrow> False
       | Some r \<Rightarrow> res_parent r = Some ?zid \<and> \<not> fst (record_update r d)"
    if d: "d \<in> set (zd_records z)" for d
  proof (cases "map_of E (rd_id d)")
    case None
    with D[OF d] R2[of "rd_id d"] show ?thesis
      by (simp add: new_record_def record_update_created)
  next
    case (Some r)
    with Ek[of "rd_id d"] have r: "map_of ?R (rd_id d) = Some r" "res_parent r = Some ?zid"
      by (auto split: option.splits if_splits)
    with R1[of "rd_id d"] have "map_of ?R1 (rd_id d) = Some r" by auto
    with R2[of "rd_id d"] d have "map_of ?R2 (rd_id d) = Some r" by auto
    with D[OF d] Some r show ?thesis by simp
  qed
  have ch: "children (stored st2) ?zid = set (map rd_id (zd_records z))"
  proof (intro set_eqI iffI)
    fix k assume "k \<in> children (stored st2) ?zid"
    then obtain r where r: "map_of ?R2 k = Some r" "res_parent r = Some ?zid"
      by (auto simp: children_rows)
    show "k \<in> set (map rd_id (zd_records z))"
    proof (rule ccontr)
      assume n: "k \<notin> set (map rd_id (zd_records z))"
      with R2[of k] r have e: "map_of E k = None" "map_of ?R1 k = Some r" by (auto split: if_splits)
      with R1[of k] n have "map_of ?R k = Some r" by auto
      with Ek[of k] r e show False by simp
    qed
  next
    fix k assume "k \<in> set (map rd_id (zd_records z))"
    then obtain d where d: "d \<in> set (zd_records z)" "k = rd_id d" by auto
    from row[OF d(1)] d(2) show "k \<in> children (stored st2) ?zid"
      by (auto simp: children_rows split: option.splits)
  qed
  show ?thesis
    unfolding records_synced_def using ch row by (simp add: list_all_iff)
qed

lemma record_phase_noop:
  assumes "session st = stored st" "get_zone (stored st) (zd_zone_id z) \<noteq> None"
    and "records_synced (stored st) z"
  shows "writes (record_phase acct st z) = writes st \<and> stored (record_phase acct st z) = stored st"
proof -
  let ?zid = "zd_zone_id z"
  let ?E = "zone_records (session st) ?zid"
  have "\<forall>d \<in> set (zd_records z). \<exists>r. map_of ?E (rd_id d) = Some r \<and> \<not> fst (record_update r d)"
    using assms(1,3) unfolding records_synced_def list_all_iff
    by (auto simp: map_of_zone_records split: option.splits)
  then have ur: "update_records acct z ?E (zd_records z) st = (Inr (), st)"
    by (rule update_records_noop)
  have nodel: "filter (\<lambda>k. k \<notin> set (map rd_id (zd_records z))) (map fst ?E) = []"
    using assms(1,3) keys_zone_records[of "session st" ?zid]
    unfolding records_synced_def by (auto simp: filter_empty_conv)
  show ?thesis
  proof (cases rule: commit_cases[of st])
    case (fail st1)
    with ur assms show ?thesis
      by (auto simp: record_phase_def record_pass_def record_upserts_def Let_def)
  next
    case (ok st1)
    then have up: "record_upserts acct z st = (Inr ?E, st1)"
      using ur assms by (auto simp: record_upserts_def Let_def)
    have de: "record_deletes z ?E st1 = commit st1"
      unfolding record_deletes_def nodel by simp
    show ?thesis
    proof (cases rule: commit_cases[of st1])
      case (ok st2)
      with up de \<open>stored st1 = session st\<close> \<open>writes st1 = writes st\<close> \<open>session st1 = session st\<close> assms(1)
      show ?thesis by (simp add: record_phase_def record_pass_def)
    next
      case (fail st2)
      with up de \<open>stored st1 = session st\<close> \<open>writes st1 = writes st\<close> \<open>session st1 = session st\<close> assms(1)
      show ?thesis by (simp add: record_phase_def record_pass_def)
    qed
  qed
qed

subsection \<open>The loop over the zones of the snapshot\<close>

lemma update_zones_frame:
  assumes "update_zones acct ezk ds st = (res, st1)"
  shows "stored st1 = stored st \<and> commit_faults st1 = commit_faults st \<and> failures st1 = failures st \<and>
         record_tbl (session st1) = record_tbl (session st) \<and> (\<exists>ws. writes st1 = writes st @ ws)"
  using assms
proof (induction ds arbitrary: st)
  case Nil
  then show ?case by auto
next
  case (Cons d ds)
  show ?case
  proof (cases "zd_zone_id d \<in> set ezk")
    case True
    show ?thesis
    proof (cases "get_zone (session st) (zd_zone_id d)")
      case None
      with Cons.prems True show ?thesis by simp
    next
      case (Some zone)
      let ?st = "if fst (zone_update zone d)
                 then issue (Update (zd_zone_id d)) (put_zone (zd_zone_id d) (snd (zone_update zone d)) st)
                 else st"
      from Cons.prems True Some have "update_zones acct ezk ds ?st = (res, st1)"
        by (simp add: case_prod_beta)
      from Cons.IH[OF this] show ?thesis by (auto split: if_splits)
    qed
  next
    case False
    with Cons.prems show ?thesis
      by (auto simp: create_Inr split: sum.splits dest!: Cons.IH)
  qed
qed

lemma update_zones_step:
  assumes "update_zones acct ezk (d # ds) st = (Inr u, st1)"
  obtains st0 r where "update_zones acct ezk ds st0 = (Inr u, st1)"
    "map_of (zone_tbl (session st0)) = (map_of (zone_tbl (session st)))(zd_zone_id d \<mapsto> r)"
    "\<not> fst (zone_update r d)"
    "case map_of (zone_tbl (session st)) (zd_zone_id d) of
       None \<Rightarrow> r = new_zone acct d \<and> zd_zone_id d \<notin> set ezk
     | Some r0 \<Rightarrow> res_account r = res_account r0 \<and> zd_zone_id d \<in> set ezk"
proof (cases "zd_zone_id d \<in> set ezk")
  case True
  with assms obtain zone where z: "get_zone (session st) (zd_zone_id d) = Some zone"
    by (auto split: option.splits)
  let ?st = "if fst (zone_update zone d)
             then issue (Update (zd_zone_id d)) (put_zone (zd_zone_id d) (snd (zone_update zone d)) st)
             else st"
  from assms True z have rest: "update_zones acct ezk ds ?st = (Inr u, st1)"
    by (simp add: case_prod_beta)
  have m: "map_of (zone_tbl (session ?st)) =
      (map_of (zone_tbl (session st)))(zd_zone_id d \<mapsto> snd (zone_update zone d))"
    using z zone_update_same[of zone d] by (auto simp: get_zone_def)
  show ?thesis
    using z True by (intro that[OF rest m]) (simp_all add: zone_update_idem get_zone_def)
next
  case False
  let ?Z = "zone_tbl (session st)"
  let ?st = "issue (Create (zd_zone_id d))
               (st\<lparr>session := (session st)\<lparr>zone_tbl := AList.update (zd_zone_id d) (new_zone acct d) ?Z\<rparr>\<rparr>)"
  from assms False have fresh: "map_of ?Z (zd_zone_id d) = None"
    and rest: "update_zones acct ezk ds ?st = (Inr u, st1)"
    by (auto simp: create_Inr new_zone_def split: sum.splits)
  have m: "map_of (zone_tbl (session ?st)) = (map_of ?Z)(zd_zone_id d \<mapsto> new_zone acct d)"
    by (simp add: update_conv')
  show ?thesis
    using fresh False
    by (intro that[OF rest m]) (simp_all add: new_zone_def zone_update_created)
qed

lemma update_zones_other:
  assumes "update_zones acct ezk ds st = (Inr u, st1)" "k \<notin> zd_zone_id ` set ds"
  shows "map_of (zone_tbl (session st1)) k = map_of (zone_tbl (session st)) k"
  using assms
proof (induction ds arbitrary: st)
  case Nil
  then show ?case by simp
next
  case (Cons d ds)
  from update_zones_step[OF Cons.prems(1)] obtain st0 r where
    "update_zones acct ezk ds st0 = (Inr u, st1)"
    "map_of (zone_tbl (session st0)) = (map_of (zone_tbl (session st)))(zd_zone_id d \<mapsto> r)"
    by metis
  with Cons.IH[OF this(1)] Cons.prems(2) show ?case by simp
qed

lemma update_zones_account:
  assumes "update_zones acct ezk ds st = (Inr u, st1)"
  shows "case map_of (zone_tbl (session st)) k of
           Some r \<Rightarrow> (\<exists>r1. map_of (zone_tbl (session st1)) k = Some r1 \<and> res_account r1 = res_account r)
         | None \<Rightarrow> (case map_of (zone_tbl (session st1)) k of
                      None \<Rightarrow> True
                    | Some r1 \<Rightarrow> res_account r1 = account_id acct \<and> k \<in> zd_zone_id ` set ds)"
  using assms
proof (induction ds arbitrary: st)
  case Nil
  then show ?case by (auto split: option.splits)
next
  case (Cons d ds)
  from update_zones_step[OF Cons.prems(1)] obtain st0 r where
    rest: "update_zones acct ezk ds st0 = (Inr u, st1)"
    and m: "map_of (zone_tbl (session st0)) = (map_of (zone_tbl (session st)))(zd_zone_id d \<mapsto> r)"
    and a: "case map_of (zone_tbl (session st)) (zd_zone_id d) of
       None \<Rightarrow> r = new_zone acct d \<and> zd_zone_id d \<notin> set ezk
     | Some r0 \<Rightarrow> res_account r = res_account r0 \<and> zd_zone_id d \<in> set ezk"
    by metis
  note IH = Cons.IH[OF rest, unfolded m]
  show ?case
  proof (cases "k = zd_zone_id d")
    case True
    with IH a show ?thesis by (auto simp: new_zone_def split: option.splits)
  next
    case False
    with IH show ?thesis by (auto split: option.splits)
  qed
qed

lemma update_zones_synced:
  assumes "update_zones acct ezk ds st = (Inr u, st1)" "distinct (map zd_zone_id ds)" "d \<in> set ds"
  shows "\<exists>r. map_of (zone_tbl (session st1)) (zd_zone_id d) = Some r \<and> \<not> fst (zone_update r d)"
  using assms
proof (induction ds arbitrary: st)
  case Nil
  then show ?case by simp
next
  case (Cons d0 ds)
  from update_zones_step[OF Cons.prems(1)] obtain st0 r where
    rest: "update_zones acct ezk ds st0 = (Inr u, st1)"
    and m: "map_of (zone_tbl (session st0)) = (map_of (zone_tbl (session st)))(zd_zone_id d0 \<mapsto> r)"
    and nc: "\<not> fst (zone_update r d0)"
    by metis
  show ?case
  proof (cases "d \<in> set ds")
    case True
    with Cons.IH[OF rest] Cons.prems(2) show ?thesis by simp
  next
    case False
    with Cons.prems(3) have d: "d = d0" by simp
    from Cons.prems(2) have "zd_zone_id d0 \<notin> zd_zone_id ` set ds" by simp
    from update_zones_other[OF rest this] m nc d show ?thesis by simp
  qed
qed

lemma update_zones_noop:
  assumes "\<forall>d \<in> set ds. zd_zone_id d \<in> set ezk \<and>
             (\<exists>r. map_of (zone_tbl (session st)) (zd_zone_id d) = Some r \<and> \<not> fst (zone_update r d))"
  shows "update_zones acct ezk ds st = (Inr (), st)"
  using assms by (induction ds) (auto simp: case_prod_beta get_zone_def)

subsection \<open>Deleting the zones that left the snapshot\<close>

lemma precedes_split:
  "precedes a b xs \<longleftrightarrow> (\<exists>us vs ws. xs = us @ a # vs @ b # ws)"
proof
  assume "precedes a b xs"
  then show "\<exists>us vs ws. xs = us @ a # vs @ b # ws"
  proof (induction xs)
    case Nil
    then show ?case by (simp add: precedes_def)
  next
    case (Cons x xs)
    show ?case
    proof (cases "x = a")
      case True
      with Cons.prems have "b \<in> set xs" by (simp add: precedes_def)
      then obtain vs ws where "xs = vs @ b # ws" by (auto simp: in_set_conv_decomp)
      with True have "x # xs = [] @ a # vs @ b # ws" by simp
      then show ?thesis by blast
    next
      case False
      with Cons.prems have "precedes a b xs" by (simp add: precedes_def)
      from Cons.IH[OF this] obtain us vs ws where "xs = us @ a # vs @ b # ws" by blast
      then have "x # xs = (x # us) @ a # vs @ b # ws" by simp
      then show ?thesis by blast
    qed
  qed
next
  assume "\<exists>us vs ws. xs = us @ a # vs @ b # ws"
  then obtain us vs ws where xs: "xs = us @ a # vs @ b # ws" by blast
  show "precedes a b xs"
    unfolding xs by (induction us) (auto simp: precedes_def)
qed

lemma precedes_append:
  "precedes a b ys \<Longrightarrow> precedes a b (xs @ ys)" "precedes a b xs \<Longrightarrow> precedes a b (xs @ ys)"
  unfolding precedes_split
  by (metis append.assoc) (metis append.assoc append_Cons)

lemma delete_zones_frame [simp]:
  "stored (delete_zones ks st) = stored st"
  "commit_faults (delete_zones ks st) = commit_faults st"
  "failures (delete_zones ks st) = failures st"
  by (induction ks arbitrary: st) simp_all

lemma delete_zones_zone:
  "map_of (zone_tbl (session (delete_zones ks st))) k =
     (if k \<in> set ks then None else map_of (zone_tbl (session st)) k)"
  by (induction ks arbitrary: st) auto

lemma delete_zones_record:
  "map_of (record_tbl (session (delete_zones ks st))) k =
     (case map_of (record_tbl (session st)) k of
        None \<Rightarrow> None
      | Some r \<Rightarrow> if \<exists>zid \<in> set ks. res_parent r = Some zid then None else Some r)"
proof (induction ks arbitrary: st)
  case Nil
  then show ?case by (simp split: option.splits)
next
  case (Cons zid ks)
  let ?recs = "map fst (zone_records (session st) zid)"
  let ?st = "delete_zone (foldl delete_record st ?recs) zid"
  have mid: "map_of (record_tbl (session ?st)) k =
     (case map_of (record_tbl (session st)) k of
        None \<Rightarrow> None
      | Some r \<Rightarrow> if res_parent r = Some zid then None else Some r)"
    using keys_zone_records[of "session st" zid]
    by (auto simp: delete_records_lookup children_rows split: option.splits)
  have "map_of (record_tbl (session (delete_zones (zid # ks) st))) k =
     (case map_of (record_tbl (session ?st)) k of
        None \<Rightarrow> None
      | Some r \<Rightarrow> if \<exists>zid \<in> set ks. res_parent r = Some zid then None else Some r)"
    using Cons.IH[of ?st] by simp
  then show ?case
    unfolding mid by (auto split: option.splits)
qed

lemma delete_zones_writes:
  assumes "distinct ks"
  shows "\<exists>ws. writes (delete_zones ks st) = writes st @ ws \<and>
           (\<forall>zid \<in> set ks. \<forall>rid \<in> children (session st) zid.
               precedes (Delete rid) (Delete zid) ws)"
  using assms
proof (induction ks arbitrary: st)
  case Nil
  then show ?case by simp
next
  case (Cons zid ks)
  let ?recs = "map fst (zone_records (session st) zid)"
  let ?st = "delete_zone (foldl delete_record st ?recs) zid"
  from Cons.prems have d: "distinct ks" "zid \<notin> set ks" by simp_all
  from Cons.IH[OF d(1), of ?st] obtain ws where
    ws: "writes (delete_zones ks ?st) = writes ?st @ ws"
    and pre: "\<forall>z \<in> set ks. \<forall>rid \<in> children (session ?st) z. precedes (Delete rid) (Delete z) ws"
    by blast
  let ?ws0 = "map Delete ?recs @ [Delete zid]"
  have w: "writes (delete_zones (zid # ks) st) = writes st @ (?ws0 @ ws)"
    using ws by simp
  have own: "precedes (Delete rid) (Delete zid) (?ws0 @ ws)" if "rid \<in> children (session st) zid" for rid
  proof -
    from that have "rid \<in> set ?recs" using keys_zone_records[of "session st" zid] by simp
    then obtain us vs where "?recs = us @ rid # vs" by (meson split_list)
    then have "?ws0 = map Delete us @ Delete rid # map Delete vs @ Delete zid # []" by simp
    then have "precedes (Delete rid) (Delete zid) ?ws0" unfolding precedes_split by blast
    then show ?thesis by (rule precedes_append(2))
  qed
  have other: "precedes (Delete rid) (Delete z) (?ws0 @ ws)"
    if "z \<in> set ks" "rid \<in> children (session st) z" for z rid
  proof -
    from that d have "z \<noteq> zid" by auto
    with that(2) have "rid \<in> children (session ?st) z"
      using keys_zone_records[of "session st" zid]
      by (auto simp: children_rows delete_records_lookup)
    with pre that(1) have "precedes (Delete rid) (Delete z) ws" by blast
    then show ?thesis by (rule precedes_append(1))
  qed
  show ?case
    using w own other by (intro exI[of _ "?ws0 @ ws"]) auto
qed

lemma delete_records_cong:
  assumes "session st2 = session st0" "writes st2 = writes st0"
  shows "session (foldl delete_record st2 ks) = session (foldl delete_record st0 ks) \<and>
         writes (foldl delete_record st2 ks) = writes (foldl delete_record st0 ks)"
  using assms by (induction ks arbitrary: st0 st2) (simp_all add: delete_record_def issue_def)

lemma delete_zones_cong:
  assumes "session st2 = session st0" "writes st2 = writes st0"
  shows "session (delete_zones ks st2) = session (delete_zones ks st0) \<and>
         writes (delete_zones ks st2) = writes (delete_zones ks st0)"
  using assms
proof (induction ks arbitrary: st0 st2)
  case Nil
  then show ?case by simp
next
  case (Cons zid ks)
  let ?f = "\<lambda>s. delete_zone (foldl delete_record s (map fst (zone_records (session s) zid))) zid"
  have "session (?f st2) = session (?f st0) \<and> writes (?f st2) = writes (?f st0)"
    using delete_records_cong[OF Cons.prems, of "map fst (zone_records (session st0) zid)"] Cons.prems
    by (simp add: delete_zone_def issue_def)
  then show ?case using Cons.IH[of "?f st2" "?f st0"] by simp
qed

subsection \<open>The zone phase\<close>

lemma zone_phase_ok:
  assumes "zone_phase acct zones st = (Inr u, st1)"
  defines "ezk \<equiv> map fst (get_all acct (session st))"
  defines "orphans \<equiv> filter (\<lambda>k. k \<notin> set (map zd_zone_id zones)) ezk"
  obtains st0 where "update_zones acct ezk zones st = (Inr (), st0)"
    "stored st1 = session st1" "failures st1 = failures st"
    "session st1 = session (delete_zones orphans st0)"
    "writes st1 = writes (delete_zones orphans st0)"
proof -
  obtain res st0 where uz: "update_zones acct ezk zones st = (res, st0)"
    by (cases "update_zones acct ezk zones st")
  from assms(1) uz obtain st2 where res: "res = Inr ()" and c1: "commit st0 = (Inr (), st2)"
    and c2: "commit (delete_zones orphans st2) = (Inr u, st1)"
    by (auto simp: zone_phase_def Let_def ezk_def orphans_def split: sum.splits prod.splits)
  note f = update_zones_frame[OF uz]
  note o1 = commit_ok[OF c1]
  note o2 = commit_ok[OF c2]
  have same: "session (delete_zones orphans st2) = session (delete_zones orphans st0) \<and>
              writes (delete_zones orphans st2) = writes (delete_zones orphans st0)"
    using o1(2,3) by (intro delete_zones_cong) simp_all
  show ?thesis
    using uz res o1 o2 f same by (intro that[of st0]) simp_all
qed

subsection \<open>The writes of a record pass\<close>

lemma update_records_writes:
  assumes "update_records acct zone E ds st = (res, st1)"
  shows "\<exists>ws. writes st1 = writes st @ ws"
  using assms
proof (induction ds arbitrary: st)
  case Nil
  then show ?case by auto
next
  case (Cons d ds)
  show ?case
  proof (cases "map_of E (rd_id d)")
    case (Some r)
    with Cons show ?thesis
      by (auto simp: case_prod_beta Let_def split: if_splits)
  next
    case None
    with Cons.prems show ?thesis
      by (auto simp: create_Inr split: sum.splits dest!: Cons.IH)
  qed
qed

lemma record_pass_writes:
  assumes "record_pass acct z st = (res, st1)"
  shows "\<exists>ws. writes st1 = writes st @ ws"
proof (cases "get_zone (session st) (zd_zone_id z)")
  case None
  with assms show ?thesis by (simp add: record_pass_def record_upserts_def)
next
  case (Some ez)
  let ?E = "zone_records (session st) (zd_zone_id z)"
  obtain r0 s0 where ur: "update_records acct z ?E (zd_records z) st = (r0, s0)"
    by (cases "update_records acct z ?E (zd_records z) st")
  from update_records_writes[OF ur] obtain w0 where w0: "writes s0 = writes st @ w0" by blast
  show ?thesis
  proof (cases r0)
    case (Inl e)
    with assms Some ur w0 show ?thesis
      by (auto simp: record_pass_def record_upserts_def Let_def)
  next
    case (Inr u0)
    show ?thesis
    proof (cases rule: commit_cases[of s0])
      case (fail s1)
      with assms Some ur Inr w0 show ?thesis
        by (auto simp: record_pass_def record_upserts_def Let_def)
    next
      case (ok s1)
      let ?s2 = "foldl delete_record s1 (filter (\<lambda>k. k \<notin> set (map rd_id (zd_records z))) (map fst ?E))"
      from ok assms Some ur Inr have c: "commit ?s2 = (res, st1)"
        by (auto simp: record_pass_def record_upserts_def record_deletes_def Let_def)
      have "writes st1 = writes ?s2"
        by (cases rule: commit_cases[of ?s2]) (use c in auto)
      with ok w0 show ?thesis by simp
    qed
  qed
qed

lemma record_phase_writes: "\<exists>ws. writes (record_phase acct st z) = writes st @ ws"
proof (cases "record_pass acct z st")
  case (Pair res st1)
  from record_pass_writes[OF Pair] Pair show ?thesis
    by (cases res) (auto simp: record_phase_def)
qed

subsection \<open>The record phases of a run\<close>

lemma phases_clean:
  "session st = stored st \<Longrightarrow>
   session (foldl (record_phase acct) st zs) = stored (foldl (record_phase acct) st zs)"
  by (induction zs rule: rev_induct) simp_all

lemma phases_zone_tbl:
  "session st = stored st \<Longrightarrow>
   zone_tbl (stored (foldl (record_phase acct) st zs)) = zone_tbl (stored st)"
  by (induction zs rule: rev_induct) (simp_all add: record_phase_zone_tbl phases_clean)

lemma phases_writes: "\<exists>ws. writes (foldl (record_phase acct) st zs) = writes st @ ws"
proof (induction zs rule: rev_induct)
  case Nil
  then show ?case by simp
next
  case (snoc z zs)
  then obtain ws where "writes (foldl (record_phase acct) st zs) = writes st @ ws" by blast
  with record_phase_writes[of acct "foldl (record_phase acct) st zs" z] show ?case by auto
qed

lemma phases_failures: "\<exists>fs. failures (foldl (record_phase acct) st zs) = failures st @ fs"
proof (induction zs rule: rev_induct)
  case Nil
  then show ?case by simp
next
  case (snoc z zs)
  then obtain fs where "failures (foldl (record_phase acct) st zs) = failures st @ fs" by blast
  with record_phase_failures[of acct "foldl (record_phase acct) st zs" z] show ?case by auto
qed

lemma phases_foreign:
  assumes "session st = stored st" "zid \<notin> zd_zone_id ` set zs"
    and "(\<exists>r. map_of (record_tbl (stored st)) k = Some r \<and> res_parent r = Some zid) \<or>
         (\<exists>r. map_of (record_tbl (stored (foldl (record_phase acct) st zs))) k = Some r \<and>
              res_parent r = Some zid)"
  shows "map_of (record_tbl (stored (foldl (record_phase acct) st zs))) k =
         map_of (record_tbl (stored st)) k"
  using assms(2,3)
proof (induction zs rule: rev_induct)
  case Nil
  then show ?case by simp
next
  case (snoc z zs)
  let ?s = "foldl (record_phase acct) st zs"
  have cl: "session ?s = stored ?s" using assms(1) by (rule phases_clean)
  from snoc.prems(1) have nz: "zid \<noteq> zd_zone_id z" "zid \<notin> zd_zone_id ` set zs" by auto
  from snoc.prems(2) consider
    (a) r where "map_of (record_tbl (stored st)) k = Some r" "res_parent r = Some zid"
    | (b) r where "map_of (record_tbl (stored (record_phase acct ?s z))) k = Some r" "res_parent r = Some zid"
    by auto
  then show ?case
  proof cases
    case a
    with snoc.IH[OF nz(2)] have "map_of (record_tbl (stored ?s)) k = Some r" by auto
    with record_phase_foreign[OF cl, of k z acct] a nz show ?thesis by auto
  next
    case b
    with record_phase_foreign[OF cl, of k z acct] nz
    have e: "map_of (record_tbl (stored (record_phase acct ?s z))) k = map_of (record_tbl (stored ?s)) k"
      by auto
    with b snoc.IH[OF nz(2)] show ?thesis by auto
  qed
qed

lemma phases_children:
  assumes "session st = stored st" "zid \<notin> zd_zone_id ` set zs"
  shows "children (stored (foldl (record_phase acct) st zs)) zid = children (stored st) zid"
  using phases_foreign[OF assms, of _ acct] unfolding children_rows
  by (intro set_eqI iffI; simp) (metis+)

subsection \<open>Zones that left the snapshot\<close>

lemma process_zones_Inr:
  assumes "process_zones zones acct st = (Inr u, st1)"
  obtains s1 where "zone_phase acct zones st = (Inr (), s1)"
    "st1 = foldl (record_phase acct) s1 zones"
  using assms by (auto simp: process_zones_def split: prod.splits sum.splits)

subsection \<open>One zone at a time\<close>

lemma records_synced_preserved:
  assumes "session st = stored st" "zd_zone_id y \<noteq> zd_zone_id z"
    and "records_synced (stored st) y"
  shows "records_synced (stored (record_phase acct st z)) y"
proof -
  let ?t = "stored st" and ?t' = "stored (record_phase acct st z)"
  have same: "map_of (record_tbl ?t') k = map_of (record_tbl ?t) k"
    if "(\<exists>r. map_of (record_tbl ?t) k = Some r \<and> res_parent r = Some (zd_zone_id y)) \<or>
        (\<exists>r. map_of (record_tbl ?t') k = Some r \<and> res_parent r = Some (zd_zone_id y))" for k
    using record_phase_foreign[OF assms(1), of k z acct] that assms(2) by auto
  have ch: "children ?t' (zd_zone_id y) = children ?t (zd_zone_id y)"
    unfolding children_rows using same by (intro set_eqI iffI; simp) (metis+)
  have rows: "(case map_of (record_tbl ?t') (rd_id d) of
                 None \<Rightarrow> False
               | Some r \<Rightarrow> res_parent r = Some (zd_zone_id y) \<and> \<not> fst (record_update r d))"
    if "case map_of (record_tbl ?t) (rd_id d) of
                 None \<Rightarrow> False
               | Some r \<Rightarrow> res_parent r = Some (zd_zone_id y) \<and> \<not> fst (record_update r d)" for d
  proof -
    from that obtain r where r: "map_of (record_tbl ?t) (rd_id d) = Some r"
      "res_parent r = Some (zd_zone_id y)" "\<not> fst (record_update r d)"
      by (auto split: option.splits)
    with same[of "rd_id d"] show ?thesis by simp
  qed
  from assms(3) show ?thesis
    unfolding records_synced_def ch using rows by (auto simp: list_all_iff)
qed

lemma phases_isolated:
  assumes "session st = stored st" "distinct (map zd_zone_id zs)" "y \<in> set zs"
    and "zd_zone_id y \<notin> fst ` set (drop (length (failures st))
            (failures (foldl (record_phase acct) st zs)))"
  shows "records_synced (stored (foldl (record_phase acct) st zs)) y"
  using assms(2-)
proof (induction zs rule: rev_induct)
  case Nil
  then show ?case by simp
next
  case (snoc z zs)
  let ?s = "foldl (record_phase acct) st zs"
  have cl: "session ?s = stored ?s" using assms(1) by (rule phases_clean)
  from phases_failures[of acct st zs] obtain fs where fs: "failures ?s = failures st @ fs" by blast
  from record_phase_failures[of acct ?s z] consider
    (ok) u st1 where "failures (record_phase acct ?s z) = failures ?s" "record_pass acct z ?s = (Inr u, st1)"
    | (bad) e where "failures (record_phase acct ?s z) = failures ?s @ [(zd_zone_id z, e)]"
    by blast
  then show ?case
  proof cases
    case ok
    show ?thesis
    proof (cases "y = z")
      case True
      from ok(2) have "record_phase acct ?s z = st1" by (simp add: record_phase_def)
      with record_pass_synced[OF cl ok(2)] True show ?thesis by simp
    next
      case False
      with snoc.prems have y1: "y \<in> set zs" and nz: "zd_zone_id z \<notin> zd_zone_id ` set zs"
        and y3: "distinct (map zd_zone_id zs)" by auto
      from y1 nz have "zd_zone_id y \<noteq> zd_zone_id z" by (metis imageI)
      note y = y1 this y3
      from snoc.prems(3) ok(1) have "zd_zone_id y \<notin> fst ` set (drop (length (failures st)) (failures ?s))"
        by simp
      from snoc.IH[OF y(3) y(1) this] have "records_synced (stored ?s) y" .
      from records_synced_preserved[OF cl y(2) this] show ?thesis by simp
    qed
  next
    case bad
    with snoc.prems(3) fs have ny: "zd_zone_id y \<noteq> zd_zone_id z"
      and nf: "zd_zone_id y \<notin> fst ` set (drop (length (failures st)) (failures ?s))"
      by auto
    with snoc.prems have y: "y \<in> set zs" "distinct (map zd_zone_id zs)" by auto
    from snoc.IH[OF y(2) y(1) nf] have "records_synced (stored ?s) y" .
    from records_synced_preserved[OF cl ny this] show ?thesis by simp
  qed
qed

subsection \<open>The zones after the zone phase\<close>

lemma update_zones_owner:
  assumes "update_zones acct ezk ds st = (Inr u, st1)" "d \<in> set ds"
    and "\<forall>k \<in> set ezk. \<exists>r. map_of (zone_tbl (session st)) k = Some r \<and> res_account r = account_id acct"
  shows "\<exists>r. map_of (zone_tbl (session st1)) (zd_zone_id d) = Some r \<and> res_account r = account_id acct"
  using assms
proof (induction ds arbitrary: st)
  case Nil
  then show ?case by simp
next
  case (Cons a ds)
  from Cons.prems(1) obtain st0 r where
    rest: "update_zones acct ezk ds st0 = (Inr u, st1)"
    and m: "map_of (zone_tbl (session st0)) = (map_of (zone_tbl (session st)))(zd_zone_id a \<mapsto> r)"
    and c: "case map_of (zone_tbl (session st)) (zd_zone_id a) of
       None \<Rightarrow> r = new_zone acct a \<and> zd_zone_id a \<notin> set ezk
     | Some r0 \<Rightarrow> res_account r = res_account r0 \<and> zd_zone_id a \<in> set ezk"
    by (rule update_zones_step)
  have ra: "res_account r = account_id acct"
  proof (cases "map_of (zone_tbl (session st)) (zd_zone_id a)")
    case None
    with c show ?thesis by (simp add: new_zone_def)
  next
    case (Some r0)
    with c Cons.prems(3) show ?thesis by auto
  qed
  have inv: "\<forall>k \<in> set ezk. \<exists>r. map_of (zone_tbl (session st0)) k = Some r \<and> res_account r = account_id acct"
    using Cons.prems(3) ra by (auto simp: m)
  show ?case
  proof (cases "d \<in> set ds")
    case True
    from Cons.IH[OF rest True inv] show ?thesis .
  next
    case False
    with Cons.prems(2) have d: "d = a" by simp
    have "map_of (zone_tbl (session st0)) (zd_zone_id d) = Some r" by (simp add: m d)
    with update_zones_account[OF rest, of "zd_zone_id d"] ra show ?thesis by auto
  qed
qed

lemma zone_phase_synced:
  assumes "zone_phase acct zones st = (Inr u, st1)" "distinct (map zd_zone_id zones)"
  shows "stored st1 = session st1"
    and "\<And>d. d \<in> set zones \<Longrightarrow> zone_row_synced (stored st1) acct d"
    and "set (map fst (get_all acct (stored st1))) \<subseteq> set (map zd_zone_id zones)"
proof -
  let ?ezk = "map fst (get_all acct (session st))"
  let ?orphans = "filter (\<lambda>k. k \<notin> set (map zd_zone_id zones)) ?ezk"
  from zone_phase_ok[OF assms(1)] obtain st0 where
    uz: "update_zones acct ?ezk zones st = (Inr (), st0)"
    and cl: "stored st1 = session st1"
    and se: "session st1 = session (delete_zones ?orphans st0)"
    by metis
  show "stored st1 = session st1" by (rule cl)
  have own: "\<forall>k \<in> set ?ezk. \<exists>r. map_of (zone_tbl (session st)) k = Some r \<and> res_account r = account_id acct"
    using keys_get_all[of acct "session st"] by auto
  show "zone_row_synced (stored st1) acct d" if d: "d \<in> set zones" for d
  proof -
    from update_zones_synced[OF uz assms(2) d] obtain r where
      r: "map_of (zone_tbl (session st0)) (zd_zone_id d) = Some r" "\<not> fst (zone_update r d)" by blast
    from update_zones_owner[OF uz d own] r have "res_account r = account_id acct" by auto
    moreover have "map_of (zone_tbl (stored st1)) (zd_zone_id d) = Some r"
      unfolding cl se using d r by (simp add: delete_zones_zone)
    ultimately show ?thesis using r by (simp add: zone_row_synced_def)
  qed
  show "set (map fst (get_all acct (stored st1))) \<subseteq> set (map zd_zone_id zones)"
  proof
    fix k assume "k \<in> set (map fst (get_all acct (stored st1)))"
    then obtain r where r: "map_of (zone_tbl (stored st1)) k = Some r" "res_account r = account_id acct"
      unfolding keys_get_all by blast
    show "k \<in> set (map zd_zone_id zones)"
    proof (rule ccontr)
      assume nk: "k \<notin> set (map zd_zone_id zones)"
      from r(1) have ko: "k \<notin> set ?orphans" and r0: "map_of (zone_tbl (session st0)) k = Some r"
        unfolding cl se by (auto simp: delete_zones_zone split: if_splits)
      from nk have "k \<notin> zd_zone_id ` set zones" by simp
      from update_zones_other[OF uz this] r0 have "map_of (zone_tbl (session st)) k = Some r" by simp
      with r(2) have "k \<in> set ?ezk" unfolding keys_get_all by blast
      with nk ko show False by simp
    qed
  qed
qed

subsection \<open>A second run\<close>

lemma phases_noop:
  assumes "session st = stored st"
    and "\<forall>z \<in> set zs. get_zone (stored st) (zd_zone_id z) \<noteq> None \<and> records_synced (stored st) z"
  shows "writes (foldl (record_phase acct) st zs) = writes st \<and>
         stored (foldl (record_phase acct) st zs) = stored st"
  using assms(2)
proof (induction zs rule: rev_induct)
  case Nil
  then show ?case by simp
next
  case (snoc z zs)
  let ?s = "foldl (record_phase acct) st zs"
  have cl: "session ?s = stored ?s" using assms(1) by (rule phases_clean)
  from snoc have eq: "writes ?s = writes st" "stored ?s = stored st" by auto
  from snoc.prems have z: "get_zone (stored ?s) (zd_zone_id z) \<noteq> None" "records_synced (stored ?s) z"
    by (auto simp: eq)
  from record_phase_noop[OF cl z, of acct] eq show ?case by simp
qed

lemma synced_second_run:
  assumes cl: "session st = stored st"
    and zs: "\<forall>z \<in> set zones. zone_row_synced (stored st) acct z \<and> records_synced (stored st) z"
    and ks: "set (map fst (get_all acct (stored st))) \<subseteq> set (map zd_zone_id zones)"
  shows "writes (snd (process_zones zones acct st)) = writes st \<and>
         stored (snd (process_zones zones acct st)) = stored st"
proof -
  let ?ezk = "map fst (get_all acct (session st))"
  have "\<forall>d \<in> set zones. zd_zone_id d \<in> set ?ezk \<and>
             (\<exists>r. map_of (zone_tbl (session st)) (zd_zone_id d) = Some r \<and> \<not> fst (zone_update r d))"
    using zs unfolding cl keys_get_all by (auto simp: zone_row_synced_def split: option.splits)
  from update_zones_noop[OF this] have uz: "update_zones acct ?ezk zones st = (Inr (), st)" .
  have orph: "filter (\<lambda>k. k \<notin> set (map zd_zone_id zones)) ?ezk = []"
    using ks unfolding cl by (auto simp: filter_empty_conv)
  show ?thesis
  proof (cases rule: commit_cases[of st])
    case (fail s1)
    with uz show ?thesis by (simp add: process_zones_def zone_phase_def)
  next
    case (ok s1)
    show ?thesis
    proof (cases rule: commit_cases[of s1])
      case (fail s2)
      with ok uz orph cl show ?thesis by (simp add: process_zones_def zone_phase_def)
    next
      case ok2: (ok s2)
      have s2: "session s2 = stored s2" "stored s2 = stored st" "writes s2 = writes st"
        using ok ok2 cl by simp_all
      have "\<forall>z \<in> set zones. get_zone (stored s2) (zd_zone_id z) \<noteq> None \<and> records_synced (stored s2) z"
        using zs unfolding s2 by (auto simp: zone_row_synced_def get_zone_def split: option.splits)
      from phases_noop[OF s2(1) this, of acct] s2
      have "writes (foldl (record_phase acct) s2 zones) = writes st \<and>
            stored (foldl (record_phase acct) s2 zones) = stored st" by simp
      moreover have "process_zones zones acct st = (Inr (), foldl (record_phase acct) s2 zones)"
        using uz ok ok2 orph by (simp add: process_zones_def zone_phase_def)
      ultimately show ?thesis by simp
    qed
  qed
qed

lemma run_synced:
  assumes d: "distinct (map zd_zone_id zones)"
    and run: "process_zones zones acct st = (Inr u, st1)"
    and ok: "failures st1 = failures st"
  shows "session st1 = stored st1"
    and "\<forall>z \<in> set zones. zone_row_synced (stored st1) acct z \<and> records_synced (stored st1) z"
    and "set (map fst (get_all acct (stored st1))) \<subseteq> set (map zd_zone_id zones)"
proof -
  from run obtain s1 where zp: "zone_phase acct zones st = (Inr (), s1)"
    and st1: "st1 = foldl (record_phase acct) s1 zones"
    by (rule process_zones_Inr)
  note zs = zone_phase_synced[OF zp d]
  have cl: "session s1 = stored s1" using zs(1) by simp
  from zone_phase_ok[OF zp] have f1: "failures s1 = failures st" by metis
  show "session st1 = stored st1" unfolding st1 using cl by (rule phases_clean)
  have zt: "zone_tbl (stored st1) = zone_tbl (stored s1)" unfolding st1 using cl by (rule phases_zone_tbl)
  show "set (map fst (get_all acct (stored st1))) \<subseteq> set (map zd_zone_id zones)"
    using zs(3) unfolding keys_get_all zt .
  show "\<forall>z \<in> set zones. zone_row_synced (stored st1) acct z \<and> records_synced (stored st1) z"
  proof
    fix z assume z: "z \<in> set zones"
    from zs(2)[OF z] have "zone_row_synced (stored st1) acct z"
      by (simp add: zone_row_synced_def zt)
    moreover have "zd_zone_id z \<notin> fst ` set (drop (length (failures s1))
            (failures (foldl (record_phase acct) s1 zones)))"
      using ok f1 by (simp add: st1)
    from phases_isolated[OF cl d z this] have "records_synced (stored st1) z" by (simp add: st1)
    ultimately show "zone_row_synced (stored st1) acct z \<and> records_synced (stored st1) z" ..
  qed
qed

subsection \<open>Evaluating a run on an example inventory\<close>

lemmas store_defs =
  process_zones_def zone_phase_def record_phase_def record_pass_def record_upserts_def
  record_deletes_def commit_def rollback_def get_all_def get_zone_def zone_records_def
  table_rows_def create_def zone_update_def record_update_def zone_props_def record_props_def
  put_zone_def put_record_def issue_def delete_record_def delete_zone_def
  example_db_def example_tables_def example_zone_def example_record_def example_account_def
  stored_zone_def stored_record_def AList.clearjunk.simps AList.delete_eq AList.update.simps
  Let_def

lemma children_code: "children t zid = set (map fst (zone_records t zid))"
  by (simp only: keys_zone_records)

section \<open>Claims about the reconciliation\<close>

text \<open>
  Claim C5 (zone deletion cascades). When \<^verbatim>\<open>process_zones\<close> returns, a zone of the account
  whose id is not among the zone ids of the snapshot is no longer stored, no stored record
  belongs to it, and among the writes of the run the deletion of each of its records comes
  before the deletion of the zone.
\<close>

theorem zone_deletion:
  assumes "process_zones zones acct st = (Inr u, st1)"
    and "zid \<in> set (map fst (get_all acct (session st)))"
    and "zid \<notin> set (map zd_zone_id zones)"
  shows "map_of (zone_tbl (stored st1)) zid = None \<and>
         children (stored st1) zid = {} \<and>
         (\<forall>rid \<in> children (session st) zid. precedes (Delete rid) (Delete zid) (new_writes st st1))"
proof -
  from assms(1) obtain s1 where zp: "zone_phase acct zones st = (Inr (), s1)"
    and st1: "st1 = foldl (record_phase acct) s1 zones"
    by (rule process_zones_Inr)
  let ?ezk = "map fst (get_all acct (session st))"
  let ?orphans = "filter (\<lambda>k. k \<notin> set (map zd_zone_id zones)) ?ezk"
  from zone_phase_ok[OF zp] obtain st0 where
    uz: "update_zones acct ?ezk zones st = (Inr (), st0)"
    and cl: "stored s1 = session s1"
    and se: "session s1 = session (delete_zones ?orphans st0)"
    and wr: "writes s1 = writes (delete_zones ?orphans st0)"
    by metis
  have inO: "zid \<in> set ?orphans" using assms(2,3) by simp
  have dO: "distinct ?orphans" by simp
  note fr = update_zones_frame[OF uz]
  have z: "map_of (zone_tbl (stored s1)) zid = None"
    unfolding cl se using inO by (simp add: delete_zones_zone)
  have c: "children (stored s1) zid = {}"
    unfolding cl se children_rows using inO
    by (auto simp: delete_zones_record split: option.splits if_splits)
  from delete_zones_writes[OF dO, of st0] obtain ws where
    ws: "writes (delete_zones ?orphans st0) = writes st0 @ ws"
    and pre: "\<forall>z \<in> set ?orphans. \<forall>rid \<in> children (session st0) z. precedes (Delete rid) (Delete z) ws"
    by blast
  from fr obtain w0 where w0: "writes st0 = writes st @ w0" by blast
  from phases_writes[of acct s1 zones] obtain w2 where w2: "writes st1 = writes s1 @ w2"
    unfolding st1 by blast
  have nw: "new_writes st st1 = w0 @ ws @ w2"
    unfolding new_writes_def w2 wr ws w0 by simp
  have ch0: "children (session st0) zid = children (session st) zid"
    using fr by (simp add: children_rows)
  have p: "precedes (Delete rid) (Delete zid) (new_writes st st1)" if "rid \<in> children (session st) zid" for rid
  proof -
    from that pre inO ch0 have "precedes (Delete rid) (Delete zid) ws" by blast
    then show ?thesis unfolding nw by (intro precedes_append(1) precedes_append(2))
  qed
  have cl1: "session s1 = stored s1" using cl by simp
  have nz: "zid \<notin> zd_zone_id ` set zones" using assms(3) by simp
  have "map_of (zone_tbl (stored st1)) zid = None"
    unfolding st1 using phases_zone_tbl[OF cl1] z by simp
  moreover have "children (stored st1) zid = {}"
    unfolding st1 using phases_children[OF cl1 nz] c by simp
  ultimately show ?thesis using p by blast
qed

text \<open>
  An instance of claim C5: of two stored zones, the one that left the snapshot is deleted
  after its two records.
\<close>

theorem zone_deletion_witness:
  "fst (process_zones [example_zone ''Z2'' ''kept.example.com'' [example_record ''C'' ''A'' ''3.3.3.3'']]
          example_account
          (example_db
             [example_zone ''Z1'' ''gone.example.com''
                [example_record ''A'' ''A'' ''1.1.1.1'', example_record ''B'' ''A'' ''2.2.2.2''],
              example_zone ''Z2'' ''kept.example.com'' [example_record ''C'' ''A'' ''3.3.3.3'']] [])) = Inr () \<and>
   ''Z1'' \<in> set (map fst (get_all example_account (session (example_db
             [example_zone ''Z1'' ''gone.example.com''
                [example_record ''A'' ''A'' ''1.1.1.1'', example_record ''B'' ''A'' ''2.2.2.2''],
              example_zone ''Z2'' ''kept.example.com'' [example_record ''C'' ''A'' ''3.3.3.3'']] [])))) \<and>
   ''Z1'' \<notin> set (map zd_zone_id
      [example_zone ''Z2'' ''kept.example.com'' [example_record ''C'' ''A'' ''3.3.3.3'']]) \<and>
   map fst (zone_records (session (example_db
             [example_zone ''Z1'' ''gone.example.com''
                [example_record ''A'' ''A'' ''1.1.1.1'', example_record ''B'' ''A'' ''2.2.2.2''],
              example_zone ''Z2'' ''kept.example.com'' [example_record ''C'' ''A'' ''3.3.3.3'']] [])) ''Z1'') =
     [''A'', ''B''] \<and>
   map_of (zone_tbl (stored (snd (process_zones
          [example_zone ''Z2'' ''kept.example.com'' [example_record ''C'' ''A'' ''3.3.3.3'']]
          example_account
          (example_db
             [example_zone ''Z1'' ''gone.example.com''
                [example_record ''A'' ''A'' ''1.1.1.1'', example_record ''B'' ''A'' ''2.2.2.2''],
              example_zone ''Z2'' ''kept.example.com'' [example_record ''C'' ''A'' ''3.3.3.3'']] []))))) ''Z1'' =
     None \<and>
   children (stored (snd (process_zones
          [example_zone ''Z2'' ''kept.example.com'' [example_record ''C'' ''A'' ''3.3.3.3'']]
          example_account
          (example_db
             [example_zone ''Z1'' ''gone.example.com''
                [example_record ''A'' ''A'' ''1.1.1.1'', example_record ''B'' ''A'' ''2.2.2.2''],
              example_zone ''Z2'' ''kept.example.com'' [example_record ''C'' ''A'' ''3.3.3.3'']] [])))) ''Z1'' =
     {} \<and>
   precedes (Delete ''A'') (Delete ''Z1'') (new_writes
      (example_db
             [example_zone ''Z1'' ''gone.example.com''
                [example_record ''A'' ''A'' ''1.1.1.1'', example_record ''B'' ''A'' ''2.2.2.2''],
              example_zone ''Z2'' ''kept.example.com'' [example_record ''C'' ''A'' ''3.3.3.3'']] [])
      (snd (process_zones
          [example_zone ''Z2'' ''kept.example.com'' [example_record ''C'' ''A'' ''3.3.3.3'']]
          example_account
          (example_db
             [example_zone ''Z1'' ''gone.example.com''
                [example_record ''A'' ''A'' ''1.1.1.1'', example_record ''B'' ''A'' ''2.2.2.2''],
              example_zone ''Z2'' ''kept.example.com'' [example_record ''C'' ''A'' ''3.3.3.3'']] [])))) \<and>
   precedes (Delete ''B'') (Delete ''Z1'') (new_writes
      (example_db
             [example_zone ''Z1'' ''gone.example.com''
                [example_record ''A'' ''A'' ''1.1.1.1'', example_record ''B'' ''A'' ''2.2.2.2''],
              example_zone ''Z2'' ''kept.example.com'' [example_record ''C'' ''A'' ''3.3.3.3'']] [])
      (snd (process_zones
          [example_zone ''Z2'' ''kept.example.com'' [example_record ''C'' ''A'' ''3.3.3.3'']]
          example_account
          (example_db
             [example_zone ''Z1'' ''gone.example.com''
                [example_record ''A'' ''A'' ''1.1.1.1'', example_record ''B'' ''A'' ''2.2.2.2''],
              example_zone ''Z2'' ''kept.example.com'' [example_record ''C'' ''A'' ''3.3.3.3'']] [])))) \<and>
   new_writes
      (example_db
             [example_zone ''Z1'' ''gone.example.com''
                [example_record ''A'' ''A'' ''1.1.1.1'', example_record ''B'' ''A'' ''2.2.2.2''],
              example_zone ''Z2'' ''kept.example.com'' [example_record ''C'' ''A'' ''3.3.3.3'']] [])
      (snd (process_zones
          [example_zone ''Z2'' ''kept.example.com'' [example_record ''C'' ''A'' ''3.3.3.3'']]
          example_account
          (example_db
             [example_zone ''Z1'' ''gone.example.com''
                [example_record ''A'' ''A'' ''1.1.1.1'', example_record ''B'' ''A'' ''2.2.2.2''],
              example_zone ''Z2'' ''kept.example.com'' [example_record ''C'' ''A'' ''3.3.3.3'']] []))) =
     [Delete ''A'', Delete ''B'', Delete ''Z1'']"
proof -
  let ?zs = "[example_zone ''Z2'' ''kept.example.com'' [example_record ''C'' ''A'' ''3.3.3.3'']]"
  let ?st = "example_db
             [example_zone ''Z1'' ''gone.example.com''
                [example_record ''A'' ''A'' ''1.1.1.1'', example_record ''B'' ''A'' ''2.2.2.2''],
              example_zone ''Z2'' ''kept.example.com'' [example_record ''C'' ''A'' ''3.3.3.3'']] []"
  have run: "process_zones ?zs example_account ?st = (Inr (), snd (process_zones ?zs example_account ?st))"
    by (simp add: store_defs)
  have c1: "fst (process_zones ?zs example_account ?st) = Inr ()"
    by (subst run) simp
  have h1: "''Z1'' \<in> set (map fst (get_all example_account (session ?st)))"
    by (simp add: store_defs)
  have h2: "''Z1'' \<notin> set (map zd_zone_id ?zs)"
    by (simp add: example_zone_def)
  have recs: "map fst (zone_records (session ?st) ''Z1'') = [''A'', ''B'']"
    by (simp add: store_defs)
  have nw: "new_writes ?st (snd (process_zones ?zs example_account ?st)) =
      [Delete ''A'', Delete ''B'', Delete ''Z1'']"
    by (simp add: store_defs new_writes_def)
  note del = zone_deletion[OF run h1 h2]
  have ch: "children (session ?st) ''Z1'' = {''A'', ''B''}"
    unfolding children_code recs by simp
  from del have pre: "\<forall>rid \<in> children (session ?st) ''Z1''.
      precedes (Delete rid) (Delete ''Z1'') (new_writes ?st (snd (process_zones ?zs example_account ?st)))"
    by blast
  have pa: "precedes (Delete ''A'') (Delete ''Z1'') (new_writes ?st (snd (process_zones ?zs example_account ?st)))"
    using pre unfolding ch by blast
  have pb: "precedes (Delete ''B'') (Delete ''Z1'') (new_writes ?st (snd (process_zones ?zs example_account ?st)))"
    using pre unfolding ch by blast
  show ?thesis
    by (intro conjI; fact c1 h1 h2 recs del[THEN conjunct1] del[THEN conjunct2, THEN conjunct1] pa pb nw)
qed

text \<open>
  Claim C1, as amended. For a snapshot whose zone ids are pairwise distinct: after a run
  that returned and logged no exception of a record phase, a second run with the same
  snapshot issues no write and leaves the stored tables as they are.
\<close>

theorem reconciliation_idempotent:
  assumes "distinct (map zd_zone_id zones)"
    and "process_zones zones acct st = (Inr u, st1)"
    and "failures st1 = failures st"
  shows "writes (snd (process_zones zones acct st1)) = writes st1 \<and>
         stored (snd (process_zones zones acct st1)) = stored st1"
  using synced_second_run[OF run_synced[OF assms]] .

text \<open>
  An instance of the amended claim C1: the first run creates a zone and its record, the
  second writes nothing.
\<close>

theorem reconciliation_idempotent_witness:
  "distinct (map zd_zone_id [example_zone ''Z'' ''example.com'' [example_record ''A'' ''A'' ''1.1.1.1'']]) \<and>
   fst (process_zones [example_zone ''Z'' ''example.com'' [example_record ''A'' ''A'' ''1.1.1.1'']]
          example_account (example_db [] [])) = Inr () \<and>
   failures (snd (process_zones [example_zone ''Z'' ''example.com'' [example_record ''A'' ''A'' ''1.1.1.1'']]
          example_account (example_db [] []))) = failures (example_db [] []) \<and>
   writes (snd (process_zones [example_zone ''Z'' ''example.com'' [example_record ''A'' ''A'' ''1.1.1.1'']]
          example_account (example_db [] []))) = [Create ''Z'', Create ''A''] \<and>
   writes (snd (process_zones [example_zone ''Z'' ''example.com'' [example_record ''A'' ''A'' ''1.1.1.1'']]
          example_account
          (snd (process_zones [example_zone ''Z'' ''example.com'' [example_record ''A'' ''A'' ''1.1.1.1'']]
             example_account (example_db [] []))))) =
     writes (snd (process_zones [example_zone ''Z'' ''example.com'' [example_record ''A'' ''A'' ''1.1.1.1'']]
          example_account (example_db [] []))) \<and>
   stored (snd (process_zones [example_zone ''Z'' ''example.com'' [example_record ''A'' ''A'' ''1.1.1.1'']]
          example_account
          (snd (process_zones [example_zone ''Z'' ''example.com'' [example_record ''A'' ''A'' ''1.1.1.1'']]
             example_account (example_db [] []))))) =
     stored (snd (process_zones [example_zone ''Z'' ''example.com'' [example_record ''A'' ''A'' ''1.1.1.1'']]
          example_account (example_db [] [])))"
proof -
  let ?zs = "[example_zone ''Z'' ''example.com'' [example_record ''A'' ''A'' ''1.1.1.1'']]"
  let ?st = "example_db [] []"
  have d: "distinct (map zd_zone_id ?zs)" by simp
  have run: "process_zones ?zs example_account ?st = (Inr (), snd (process_zones ?zs example_account ?st))"
    by (simp add: store_defs)
  have f: "failures (snd (process_zones ?zs example_account ?st)) = failures ?st"
    by (simp add: store_defs)
  have w: "writes (snd (process_zones ?zs example_account ?st)) = [Create ''Z'', Create ''A'']"
    by (simp add: store_defs)
  have c2: "fst (process_zones ?zs example_account ?st) = Inr ()"
    by (subst run) simp
  note again = reconciliation_idempotent[OF d run f]
  show ?thesis
    by (intro conjI; fact d c2 f w again[THEN conjunct1] again[THEN conjunct2])
qed

text \<open>
  Claim C1 as stated fails for a snapshot that lists one zone id twice with different
  records: the pass of the first entry creates A and deletes B, the pass of the second
  creates B and deletes A, each change committed. The first run returns, no record phase
  raises, and it leaves the stored records as they were; the second run writes the same
  four changes again.
\<close>

theorem reconciliation_idempotent_counterexample:
  "fst (process_zones
          [example_zone ''Z'' ''example.com'' [example_record ''A'' ''A'' ''1.1.1.1''],
           example_zone ''Z'' ''example.com'' [example_record ''B'' ''A'' ''2.2.2.2'']]
          example_account
          (example_db [example_zone ''Z'' ''example.com'' [example_record ''B'' ''A'' ''2.2.2.2'']] [])) = Inr () \<and>
   failures (snd (process_zones
          [example_zone ''Z'' ''example.com'' [example_record ''A'' ''A'' ''1.1.1.1''],
           example_zone ''Z'' ''example.com'' [example_record ''B'' ''A'' ''2.2.2.2'']]
          example_account
          (example_db [example_zone ''Z'' ''example.com'' [example_record ''B'' ''A'' ''2.2.2.2'']] []))) = [] \<and>
   writes (snd (process_zones
          [example_zone ''Z'' ''example.com'' [example_record ''A'' ''A'' ''1.1.1.1''],
           example_zone ''Z'' ''example.com'' [example_record ''B'' ''A'' ''2.2.2.2'']]
          example_account
          (example_db [example_zone ''Z'' ''example.com'' [example_record ''B'' ''A'' ''2.2.2.2'']] []))) = [Create ''A'', Delete ''B'', Create ''B'', Delete ''A''] \<and>
   zone_records (stored (snd (process_zones
          [example_zone ''Z'' ''example.com'' [example_record ''A'' ''A'' ''1.1.1.1''],
           example_zone ''Z'' ''example.com'' [example_record ''B'' ''A'' ''2.2.2.2'']]
          example_account
          (example_db [example_zone ''Z'' ''example.com'' [example_record ''B'' ''A'' ''2.2.2.2'']] [])))) ''Z'' =
     [stored_record ''Z'' (example_record ''B'' ''A'' ''2.2.2.2'')] \<and>
   fst (process_zones
          [example_zone ''Z'' ''example.com'' [example_record ''A'' ''A'' ''1.1.1.1''],
           example_zone ''Z'' ''example.com'' [example_record ''B'' ''A'' ''2.2.2.2'']]
          example_account
          (snd (process_zones
          [example_zone ''Z'' ''example.com'' [example_record ''A'' ''A'' ''1.1.1.1''],
           example_zone ''Z'' ''example.com'' [example_record ''B'' ''A'' ''2.2.2.2'']]
          example_account
          (example_db [example_zone ''Z'' ''example.com'' [example_record ''B'' ''A'' ''2.2.2.2'']] [])))) = Inr () \<and>
   failures (snd (process_zones
          [example_zone ''Z'' ''example.com'' [example_record ''A'' ''A'' ''1.1.1.1''],
           example_zone ''Z'' ''example.com'' [example_record ''B'' ''A'' ''2.2.2.2'']]
          example_account
          (snd (process_zones
          [example_zone ''Z'' ''example.com'' [example_record ''A'' ''A'' ''1.1.1.1''],
           example_zone ''Z'' ''example.com'' [example_record ''B'' ''A'' ''2.2.2.2'']]
          example_account
          (example_db [example_zone ''Z'' ''example.com'' [example_record ''B'' ''A'' ''2.2.2.2'']] []))))) = [] \<and>
   new_writes (snd (process_zones
          [example_zone ''Z'' ''example.com'' [example_record ''A'' ''A'' ''1.1.1.1''],
           example_zone ''Z'' ''example.com'' [example_record ''B'' ''A'' ''2.2.2.2'']]
          example_account
          (example_db [example_zone ''Z'' ''example.com'' [example_record ''B'' ''A'' ''2.2.2.2'']] [])))
     (snd (process_zones
          [example_zone ''Z'' ''example.com'' [example_record ''A'' ''A'' ''1.1.1.1''],
           example_zone ''Z'' ''example.com'' [example_record ''B'' ''A'' ''2.2.2.2'']]
          example_account
          (snd (process_zones
          [example_zone ''Z'' ''example.com'' [example_record ''A'' ''A'' ''1.1.1.1''],
           example_zone ''Z'' ''example.com'' [example_record ''B'' ''A'' ''2.2.2.2'']]
          example_account
          (example_db [example_zone ''Z'' ''example.com'' [example_record ''B'' ''A'' ''2.2.2.2'']] []))))) = [Create ''A'', Delete ''B'', Create ''B'', Delete ''A'']"
  by (simp add: store_defs new_writes_def)

text \<open>
  Claim C6, as amended. When the record pass of a zone raises, \<^verbatim>\<open>process_zones\<close> still
  returns: the exception is logged, the pending changes are rolled back, and the passes of
  the later zones run from the state so reached. The pass leaves the zone table and the
  records of the other zones as they were; it leaves the stored state as it was when the
  exception came before the end of its first commit (line 168). And when the zone ids of
  the snapshot are pairwise distinct, the stored records of every later zone for which no
  exception is logged agree with the snapshot when the run ends.
\<close>

theorem record_phase_isolation:
  assumes "zone_phase acct (pre @ z # post) st = (Inr u, s1)"
    and "s = foldl (record_phase acct) s1 pre"
    and "record_pass acct z s = (Inl e, s')"
  shows "process_zones (pre @ z # post) acct st =
           (Inr (), foldl (record_phase acct) (record_phase acct s z) post) \<and>
         record_phase acct s z = rollback (s'\<lparr>failures := failures s @ [(zd_zone_id z, e)]\<rparr>) \<and>
         session (record_phase acct s z) = stored s' \<and>
         stored (record_phase acct s z) = stored s' \<and>
         zone_tbl (stored s') = zone_tbl (stored s) \<and>
         (\<forall>k r. map_of (record_tbl (stored s)) k = Some r \<and> res_parent r \<noteq> Some (zd_zone_id z) \<longrightarrow>
                map_of (record_tbl (stored s')) k = Some r) \<and>
         ((\<exists>s0. record_upserts acct z s = (Inl e, s0)) \<longrightarrow> stored s' = stored s) \<and>
         (distinct (map zd_zone_id (pre @ z # post)) \<longrightarrow>
            (\<forall>y \<in> set post.
               zd_zone_id y \<notin> fst ` set (drop (length (failures st))
                  (failures (snd (process_zones (pre @ z # post) acct st)))) \<longrightarrow>
               records_synced (stored (snd (process_zones (pre @ z # post) acct st))) y))"
proof -
  let ?zs = "pre @ z # post"
  from zone_phase_ok[OF assms(1)] have cl1: "session s1 = stored s1" and f1: "failures s1 = failures st"
    by metis+
  have cl: "session s = stored s" unfolding assms(2) using cl1 by (rule phases_clean)
  have rp: "record_phase acct s z = rollback (s'\<lparr>failures := failures s' @ [(zd_zone_id z, e)]\<rparr>)"
    using assms(3) by (simp add: record_phase_def)
  have fs: "failures s' = failures s \<and> (stored s' = stored s \<or> (\<exists>E s0. record_upserts acct z s = (Inr E, s0)))"
  proof (cases "record_upserts acct z s")
    case (Pair res s0)
    show ?thesis
    proof (cases res)
      case (Inl e0)
      with Pair assms(3) have "s0 = s'" by (simp add: record_pass_def)
      with record_upserts_fail[of acct z s e0 s0] Pair Inl show ?thesis by simp
    next
      case (Inr E)
      with Pair assms(3) have "record_deletes z E s0 = (Inl e, s')" by (simp add: record_pass_def)
      from record_deletes_fail[OF this] record_upserts_ok(4)[of acct z s E s0] Pair Inr
      show ?thesis by simp
    qed
  qed
  have run: "process_zones ?zs acct st = (Inr (), foldl (record_phase acct) (record_phase acct s z) post)"
    using assms(1,2) by (simp add: process_zones_def)
  have r2: "record_phase acct s z = rollback (s'\<lparr>failures := failures s @ [(zd_zone_id z, e)]\<rparr>)"
    using rp fs by simp
  have r3: "session (record_phase acct s z) = stored s'" "stored (record_phase acct s z) = stored s'"
    unfolding rp by (simp_all add: rollback_def)
  have r5: "zone_tbl (stored s') = zone_tbl (stored s)"
    using record_phase_zone_tbl[OF cl, of acct z] r3 by simp
  have r6: "map_of (record_tbl (stored s')) k = Some r"
    if "map_of (record_tbl (stored s)) k = Some r \<and> res_parent r \<noteq> Some (zd_zone_id z)" for k r
    using record_phase_foreign[OF cl, of k z acct] that r3 by auto
  have r7: "stored s' = stored s" if "\<exists>s0. record_upserts acct z s = (Inl e, s0)"
    using that fs by auto
  have r8: "records_synced (stored (snd (process_zones ?zs acct st))) y"
    if d: "distinct (map zd_zone_id ?zs)" and y: "y \<in> set post"
      and nf: "zd_zone_id y \<notin> fst ` set (drop (length (failures st))
                  (failures (snd (process_zones ?zs acct st))))" for y
  proof -
    have eq: "snd (process_zones ?zs acct st) = foldl (record_phase acct) s1 ?zs"
      using assms(1) by (simp add: process_zones_def)
    from y have y': "y \<in> set ?zs" by simp
    from nf have "zd_zone_id y \<notin> fst ` set (drop (length (failures s1))
            (failures (foldl (record_phase acct) s1 ?zs)))"
      unfolding eq f1 .
    from phases_isolated[OF cl1 d y' this] show ?thesis unfolding eq .
  qed
  show ?thesis
    using run r2 r3 r5 r6 r7 r8 by blast
qed

text \<open>
  An instance of the amended claim C6: the pass of the first zone raises on a changed
  record and leaves it as stored, the pass of the second zone creates its record.
\<close>

theorem record_phase_isolation_witness:
  "zone_phase example_account
     ([] @ example_zone ''X'' ''x.example.com'' [example_record ''B'' ''A'' ''9.9.9.9''] #
        [example_zone ''Y'' ''y.example.com'' [example_record ''E'' ''A'' ''5.5.5.5'']])
     (example_db [example_zone ''X'' ''x.example.com'' [example_record ''B'' ''A'' ''2.2.2.2''],
                  example_zone ''Y'' ''y.example.com'' []] []) =
     (Inr (), example_db [example_zone ''X'' ''x.example.com'' [example_record ''B'' ''A'' ''2.2.2.2''],
                  example_zone ''Y'' ''y.example.com'' []] []) \<and>
   fst (record_pass example_account
          (example_zone ''X'' ''x.example.com'' [example_record ''B'' ''A'' ''9.9.9.9''])
          (example_db [example_zone ''X'' ''x.example.com'' [example_record ''B'' ''A'' ''2.2.2.2''],
                       example_zone ''Y'' ''y.example.com'' []] [])) = Inl (AttributeError ''name'') \<and>
   fst (process_zones
          [example_zone ''X'' ''x.example.com'' [example_record ''B'' ''A'' ''9.9.9.9''],
           example_zone ''Y'' ''y.example.com'' [example_record ''E'' ''A'' ''5.5.5.5'']]
          example_account
          (example_db [example_zone ''X'' ''x.example.com'' [example_record ''B'' ''A'' ''2.2.2.2''],
                       example_zone ''Y'' ''y.example.com'' []] [])) = Inr () \<and>
   failures (snd (process_zones
          [example_zone ''X'' ''x.example.com'' [example_record ''B'' ''A'' ''9.9.9.9''],
           example_zone ''Y'' ''y.example.com'' [example_record ''E'' ''A'' ''5.5.5.5'']]
          example_account
          (example_db [example_zone ''X'' ''x.example.com'' [example_record ''B'' ''A'' ''2.2.2.2''],
                       example_zone ''Y'' ''y.example.com'' []] []))) = [(''X'', AttributeError ''name'')] \<and>
   zone_records (stored (snd (process_zones
          [example_zone ''X'' ''x.example.com'' [example_record ''B'' ''A'' ''9.9.9.9''],
           example_zone ''Y'' ''y.example.com'' [example_record ''E'' ''A'' ''5.5.5.5'']]
          example_account
          (example_db [example_zone ''X'' ''x.example.com'' [example_record ''B'' ''A'' ''2.2.2.2''],
                       example_zone ''Y'' ''y.example.com'' []] [])))) ''X'' =
     [stored_record ''X'' (example_record ''B'' ''A'' ''2.2.2.2'')] \<and>
   zone_records (stored (snd (process_zones
          [example_zone ''X'' ''x.example.com'' [example_record ''B'' ''A'' ''9.9.9.9''],
           example_zone ''Y'' ''y.example.com'' [example_record ''E'' ''A'' ''5.5.5.5'']]
          example_account
          (example_db [example_zone ''X'' ''x.example.com'' [example_record ''B'' ''A'' ''2.2.2.2''],
                       example_zone ''Y'' ''y.example.com'' []] [])))) ''Y'' =
     [stored_record ''Y'' (example_record ''E'' ''A'' ''5.5.5.5'')] \<and>
   records_synced (stored (snd (process_zones
          [example_zone ''X'' ''x.example.com'' [example_record ''B'' ''A'' ''9.9.9.9''],
           example_zone ''Y'' ''y.example.com'' [example_record ''E'' ''A'' ''5.5.5.5'']]
          example_account
          (example_db [example_zone ''X'' ''x.example.com'' [example_record ''B'' ''A'' ''2.2.2.2''],
                       example_zone ''Y'' ''y.example.com'' []] []))))
     (example_zone ''Y'' ''y.example.com'' [example_record ''E'' ''A'' ''5.5.5.5''])"
proof -
  let ?X = "example_zone ''X'' ''x.example.com'' [example_record ''B'' ''A'' ''9.9.9.9'']"
  let ?Y = "example_zone ''Y'' ''y.example.com'' [example_record ''E'' ''A'' ''5.5.5.5'']"
  let ?st = "example_db [example_zone ''X'' ''x.example.com'' [example_record ''B'' ''A'' ''2.2.2.2''],
                         example_zone ''Y'' ''y.example.com'' []] []"
  have zp: "zone_phase example_account ([] @ ?X # [?Y]) ?st = (Inr (), ?st)"
    by (simp add: store_defs)
  have rp: "record_pass example_account ?X ?st =
      (Inl (AttributeError ''name''), snd (record_pass example_account ?X ?st))"
    by (simp add: store_defs)
  have run: "process_zones [?X, ?Y] example_account ?st =
      (Inr (), snd (process_zones [?X, ?Y] example_account ?st))"
    by (simp add: store_defs)
  have fl: "failures (snd (process_zones [?X, ?Y] example_account ?st)) = [(''X'', AttributeError ''name'')]"
    by (simp add: store_defs)
  have zx: "zone_records (stored (snd (process_zones [?X, ?Y] example_account ?st))) ''X'' =
      [stored_record ''X'' (example_record ''B'' ''A'' ''2.2.2.2'')]"
    by (simp add: store_defs)
  have zy: "zone_records (stored (snd (process_zones [?X, ?Y] example_account ?st))) ''Y'' =
      [stored_record ''Y'' (example_record ''E'' ''A'' ''5.5.5.5'')]"
    by (simp add: store_defs)
  have d: "distinct (map zd_zone_id ([] @ ?X # [?Y]))" by (simp add: example_zone_def)
  have nf: "zd_zone_id ?Y \<notin> fst ` set (drop (length (failures ?st))
       (failures (snd (process_zones ([] @ ?X # [?Y]) example_account ?st))))"
    using fl by (simp add: example_zone_def example_db_def)
  have rp': "record_pass example_account ?X (foldl (record_phase example_account) ?st []) =
      (Inl (AttributeError ''name''), snd (record_pass example_account ?X ?st))"
    using rp by simp
  from record_phase_isolation[OF zp refl rp']
  have "distinct (map zd_zone_id ([] @ ?X # [?Y])) \<longrightarrow>
            (\<forall>y \<in> set [?Y].
               zd_zone_id y \<notin> fst ` set (drop (length (failures ?st))
                  (failures (snd (process_zones ([] @ ?X # [?Y]) example_account ?st)))) \<longrightarrow>
               records_synced (stored (snd (process_zones ([] @ ?X # [?Y]) example_account ?st))) y)"
    by blast
  with d nf have "records_synced (stored (snd (process_zones ([] @ ?X # [?Y]) example_account ?st))) ?Y"
    by (metis list.set_intros(1))
  then have rs: "records_synced (stored (snd (process_zones [?X, ?Y] example_account ?st))) ?Y"
    by simp
  have c2: "fst (record_pass example_account ?X ?st) = Inl (AttributeError ''name'')"
    by (subst rp) simp
  have c3: "fst (process_zones [?X, ?Y] example_account ?st) = Inr ()"
    by (subst run) simp
  show ?thesis
    by (intro conjI; fact zp c2 c3 fl zx zy rs)
qed

text \<open>
  Claim C6 as stated fails when the second commit of a pass (line 181) raises: the record
  created by the pass was committed at line 168 and stays stored, only the deletion is
  rolled back, so the stored state of the zone is not the one before the pass.
\<close>

theorem record_phase_isolation_counterexample:
  "fst (process_zones
          [example_zone ''Z'' ''example.com''
             [example_record ''B'' ''A'' ''2.2.2.2'', example_record ''C'' ''A'' ''3.3.3.3'',
              example_record ''D'' ''A'' ''4.4.4.4'']]
          example_account
          (example_db [example_zone ''Z'' ''example.com''
             [example_record ''A'' ''A'' ''1.1.1.1'', example_record ''B'' ''A'' ''2.2.2.2'',
              example_record ''C'' ''A'' ''3.3.3.3'']] [False, False, False, True])) = Inr () \<and>
   failures (snd (process_zones
          [example_zone ''Z'' ''example.com''
             [example_record ''B'' ''A'' ''2.2.2.2'', example_record ''C'' ''A'' ''3.3.3.3'',
              example_record ''D'' ''A'' ''4.4.4.4'']]
          example_account
          (example_db [example_zone ''Z'' ''example.com''
             [example_record ''A'' ''A'' ''1.1.1.1'', example_record ''B'' ''A'' ''2.2.2.2'',
              example_record ''C'' ''A'' ''3.3.3.3'']] [False, False, False, True]))) =
     [(''Z'', DatabaseError)] \<and>
   map fst (zone_records (stored
          (example_db [example_zone ''Z'' ''example.com''
             [example_record ''A'' ''A'' ''1.1.1.1'', example_record ''B'' ''A'' ''2.2.2.2'',
              example_record ''C'' ''A'' ''3.3.3.3'']] [False, False, False, True])) ''Z'') =
     [''A'', ''B'', ''C''] \<and>
   map fst (zone_records (stored (snd (process_zones
          [example_zone ''Z'' ''example.com''
             [example_record ''B'' ''A'' ''2.2.2.2'', example_record ''C'' ''A'' ''3.3.3.3'',
              example_record ''D'' ''A'' ''4.4.4.4'']]
          example_account
          (example_db [example_zone ''Z'' ''example.com''
             [example_record ''A'' ''A'' ''1.1.1.1'', example_record ''B'' ''A'' ''2.2.2.2'',
              example_record ''C'' ''A'' ''3.3.3.3'']] [False, False, False, True])))) ''Z'') =
     [''A'', ''B'', ''C'', ''D''] \<and>
   writes (snd (process_zones
          [example_zone ''Z'' ''example.com''
             [example_record ''B'' ''A'' ''2.2.2.2'', example_record ''C'' ''A'' ''3.3.3.3'',
              example_record ''D'' ''A'' ''4.4.4.4'']]
          example_account
          (example_db [example_zone ''Z'' ''example.com''
             [example_record ''A'' ''A'' ''1.1.1.1'', example_record ''B'' ''A'' ''2.2.2.2'',
              example_record ''C'' ''A'' ''3.3.3.3'']] [False, False, False, True]))) =
     [Create ''D'', Delete ''A'']"
  by (simp add: store_defs)

text \<open>
  Claim C4 (record-set diff) against the code. With stored records A, B, C and a snapshot
  B, C, D in which B has a new value, the pass raises \<^verbatim>\<open>AttributeError\<close> at line 151
  (\<^verbatim>\<open>zone.name\<close> on the snapshot dict), the handler rolls back, and the stored records
  stay A, B, C with the old value of B. When B and C are unchanged the stored records
  become B, C, D, by one creation and one deletion.
\<close>

theorem record_diff_changed_record:
  "process_zones
     [example_zone ''Z'' ''example.com''
        [example_record ''B'' ''A'' ''9.9.9.9'', example_record ''C'' ''A'' ''3.3.3.3'',
         example_record ''D'' ''A'' ''4.4.4.4'']]
     example_account
     (example_db [example_zone ''Z'' ''example.com''
        [example_record ''A'' ''A'' ''1.1.1.1'', example_record ''B'' ''A'' ''2.2.2.2'',
         example_record ''C'' ''A'' ''3.3.3.3'']] []) =
   (Inr (),
    (example_db [example_zone ''Z'' ''example.com''
        [example_record ''A'' ''A'' ''1.1.1.1'', example_record ''B'' ''A'' ''2.2.2.2'',
         example_record ''C'' ''A'' ''3.3.3.3'']] [])
      \<lparr>failures := [(''Z'', AttributeError ''name'')]\<rparr>) \<and>
   zone_records (stored (snd (process_zones
     [example_zone ''Z'' ''example.com''
        [example_record ''B'' ''A'' ''9.9.9.9'', example_record ''C'' ''A'' ''3.3.3.3'',
         example_record ''D'' ''A'' ''4.4.4.4'']]
     example_account
     (example_db [example_zone ''Z'' ''example.com''
        [example_record ''A'' ''A'' ''1.1.1.1'', example_record ''B'' ''A'' ''2.2.2.2'',
         example_record ''C'' ''A'' ''3.3.3.3'']] [])))) ''Z'' =
     [stored_record ''Z'' (example_record ''A'' ''A'' ''1.1.1.1''),
      stored_record ''Z'' (example_record ''B'' ''A'' ''2.2.2.2''),
      stored_record ''Z'' (example_record ''C'' ''A'' ''3.3.3.3'')] \<and>
   zone_records (stored (snd (process_zones
     [example_zone ''Z'' ''example.com''
        [example_record ''B'' ''A'' ''2.2.2.2'', example_record ''C'' ''A'' ''3.3.3.3'',
         example_record ''D'' ''A'' ''4.4.4.4'']]
     example_account
     (example_db [example_zone ''Z'' ''example.com''
        [example_record ''A'' ''A'' ''1.1.1.1'', example_record ''B'' ''A'' ''2.2.2.2'',
         example_record ''C'' ''A'' ''3.3.3.3'']] [])))) ''Z'' =
     [stored_record ''Z'' (example_record ''B'' ''A'' ''2.2.2.2''),
      stored_record ''Z'' (example_record ''C'' ''A'' ''3.3.3.3''),
      stored_record ''Z'' (example_record ''D'' ''A'' ''4.4.4.4'')] \<and>
   writes (snd (process_zones
     [example_zone ''Z'' ''example.com''
        [example_record ''B'' ''A'' ''2.2.2.2'', example_record ''C'' ''A'' ''3.3.3.3'',
         example_record ''D'' ''A'' ''4.4.4.4'']]
     example_account
     (example_db [example_zone ''Z'' ''example.com''
        [example_record ''A'' ''A'' ''1.1.1.1'', example_record ''B'' ''A'' ''2.2.2.2'',
         example_record ''C'' ''A'' ''3.3.3.3'']] []))) = [Create ''D'', Delete ''A'']"
  by (simp add: store_defs)


section \<open>Claims about the browsing views\<close>

text \<open>
  Claim C9 (type filter of the zone-records view) against the code. The answer of
  \<^verbatim>\<open>DNSZoneRecords.get\<close> does not depend on the \<^verbatim>\<open>type\<close> argument: it is parsed at line 61
  and never read. A request for the records of type A of a zone that holds an A record and
  a TXT record is answered with both; the records are the slice from
  \<^verbatim>\<open>(page - 1) * count\<close> to \<^verbatim>\<open>(page - 1) * count + count\<close> of all the records of the zone.
\<close>

theorem records_view_ignores_type:
  "DNSZoneRecords_get t zid (args\<lparr>arg_type := ty\<rparr>) = DNSZoneRecords_get t zid args \<and>
   DNSZoneRecords_get
     (example_tables [example_zone ''Z'' ''example.com''
        [example_record ''A1'' ''A'' ''1.1.1.1'', example_record ''T1'' ''TXT'' ''hello'']])
     ''Z'' \<lparr>arg_page = 1, arg_type = Some ''A'', arg_count = 25\<rparr> =
   Inr \<lparr>response_recordCount = 2,
        response_records =
          [stored_record ''Z'' (example_record ''A1'' ''A'' ''1.1.1.1''),
           stored_record ''Z'' (example_record ''T1'' ''TXT'' ''hello'')]\<rparr> \<and>
   (case DNSZoneRecords_get t zid args of
      Inl e \<Rightarrow> get_zone t zid = None
    | Inr response \<Rightarrow>
        response_records response =
          py_slice (zone_records t zid) ((arg_page args - 1) * arg_count args)
            ((arg_page args - 1) * arg_count args + arg_count args))"
  by (simp add: DNSZoneRecords_get_def py_slice_def clamp_index_def store_defs split: option.splits)

end
